theory Spec2Isabelle
  imports Complex_Main
begin

section \<open>JavaScript numbers and the two number parsers the order book uses\<close>

text \<open>
  The order-book component (the Vue component in \<^verbatim>\<open>src/unnamed/part_002\<close>) keeps
  prices and quantities as the strings the exchange sent and converts them with
  \<^verbatim>\<open>parseFloat\<close> (tests and sorting) and with \<^verbatim>\<open>new Decimal(..)\<close> (price bucketing).

  A JavaScript number is modelled as \<open>rat option\<close>: \<open>Some q\<close> is the finite value \<open>q\<close>,
  \<open>None\<close> is a value that is not a finite number (\<^verbatim>\<open>NaN\<close>; for the result of a division
  also \<^verbatim>\<open>Infinity\<close>). Finite values are exact rationals: the rounding of IEEE doubles is
  not modelled, and neither is the literal \<^verbatim>\<open>Infinity\<close>. \<^verbatim>\<open>-0\<close> and \<^verbatim>\<open>0\<close> are the same
  value, as they are for \<^verbatim>\<open>===\<close>.
\<close>

type_synonym jsnum = "rat option"

definition js_add :: "jsnum \<Rightarrow> jsnum \<Rightarrow> jsnum" where
  "js_add a b = (case (a, b) of (Some x, Some y) \<Rightarrow> Some (x + y) | _ \<Rightarrow> None)"

definition js_sub :: "jsnum \<Rightarrow> jsnum \<Rightarrow> jsnum" where
  "js_sub a b = (case (a, b) of (Some x, Some y) \<Rightarrow> Some (x - y) | _ \<Rightarrow> None)"

definition js_mul :: "jsnum \<Rightarrow> jsnum \<Rightarrow> jsnum" where
  "js_mul a b = (case (a, b) of (Some x, Some y) \<Rightarrow> Some (x * y) | _ \<Rightarrow> None)"

text \<open>\<^verbatim>\<open>a / b\<close>: dividing by zero gives \<^verbatim>\<open>NaN\<close> or an infinity, never a finite number.\<close>

definition js_div :: "jsnum \<Rightarrow> jsnum \<Rightarrow> jsnum" where
  "js_div a b = (case (a, b) of
       (Some x, Some y) \<Rightarrow> if y = 0 then None else Some (x / y)
     | _ \<Rightarrow> None)"

text \<open>\<^verbatim>\<open>v || 0\<close> on a number: \<^verbatim>\<open>NaN\<close> and \<^verbatim>\<open>0\<close> are falsy, \<^verbatim>\<open>undefined\<close> too.\<close>

definition or0 :: "jsnum option \<Rightarrow> jsnum" where
  "or0 v = (case v of Some (Some x) \<Rightarrow> Some x | _ \<Rightarrow> Some 0)"

text \<open>
  \<^verbatim>\<open>a <= b\<close> on update ids. An id is \<open>None\<close> when the field is missing
  (\<^verbatim>\<open>undefined\<close>); every comparison with \<^verbatim>\<open>undefined\<close> is false.
\<close>

definition js_le :: "int option \<Rightarrow> int option \<Rightarrow> bool" where
  "js_le a b = (case (a, b) of (Some x, Some y) \<Rightarrow> x \<le> y | _ \<Rightarrow> False)"

subsection \<open>Scanning a decimal literal\<close>

definition is_digit :: "char \<Rightarrow> bool" where
  "is_digit c = (48 \<le> (of_char c :: nat) \<and> (of_char c :: nat) \<le> 57)"

definition is_space :: "char \<Rightarrow> bool" where
  "is_space c = ((of_char c :: nat) = 32 \<or> (9 \<le> (of_char c :: nat) \<and> (of_char c :: nat) \<le> 13))"

definition digits_value :: "string \<Rightarrow> nat" where
  "digits_value ds = foldl (\<lambda>n c. 10 * n + (of_char c - 48)) 0 ds"

text \<open>An optional sign; \<open>True\<close> means a minus sign was read.\<close>

definition scan_sign :: "string \<Rightarrow> bool \<times> string" where
  "scan_sign s = (case s of
       [] \<Rightarrow> (False, s)
     | c # r \<Rightarrow> if c = CHR ''-'' then (True, r)
                else if c = CHR ''+'' then (False, r) else (False, s))"

text \<open>An optional exponent part: \<^verbatim>\<open>e\<close> or \<^verbatim>\<open>E\<close>, an optional sign, at least one digit.\<close>

definition scan_exponent :: "string \<Rightarrow> int \<times> string" where
  "scan_exponent s = (case s of
       [] \<Rightarrow> (0, s)
     | c # r \<Rightarrow>
         if c = CHR ''e'' \<or> c = CHR ''E'' then
           (let (neg, r1) = scan_sign r; ds = takeWhile is_digit r1
            in if ds = [] then (0, s)
               else (if neg then - int (digits_value ds) else int (digits_value ds),
                     dropWhile is_digit r1))
         else (0, s))"

text \<open>
  The longest prefix of \<open>s\<close> that is a signed decimal literal (digits, an optional
  fraction, an optional exponent), with its value and the rest of the string;
  \<open>None\<close> when \<open>s\<close> starts with no such literal.
\<close>

definition scan_decimal :: "string \<Rightarrow> (rat \<times> string) option" where
  "scan_decimal s =
     (let (neg, r0) = scan_sign s;
          ip = takeWhile is_digit r0;
          r1 = dropWhile is_digit r0;
          (fp, r2) = (case r1 of
                        [] \<Rightarrow> ([], r1)
                      | c # r \<Rightarrow> if c = CHR ''.''
                                 then (takeWhile is_digit r, dropWhile is_digit r)
                                 else ([], r1))
      in if ip = [] \<and> fp = [] then None
         else (let (e, r3) = scan_exponent r2;
                   m = of_nat (digits_value (ip @ fp)) / 10 ^ length fp;
                   v = (if e < 0 then m / 10 ^ nat (- e) else m * 10 ^ nat e)
               in Some (if neg then - v else v, r3)))"

text \<open>
  \<^verbatim>\<open>parseFloat(s)\<close>: leading white space is skipped, the longest numeric prefix is
  read, anything after it is ignored; \<^verbatim>\<open>NaN\<close> when there is no numeric prefix.
\<close>

definition parseFloat :: "string \<Rightarrow> jsnum" where
  "parseFloat s = map_option fst (scan_decimal (dropWhile is_space s))"

text \<open>
  \<^verbatim>\<open>new Decimal(s)\<close> of decimal.js on a string: the whole string has to be a decimal
  literal, and its value is kept exactly. \<open>None\<close> stands for every other string:
  decimal.js throws on it, or reads one of its other notations (hexadecimal,
  \<^verbatim>\<open>Infinity\<close>, \<^verbatim>\<open>NaN\<close>), which the model does not follow.
\<close>

definition Decimal :: "string \<Rightarrow> rat option" where
  "Decimal s = (case scan_decimal s of Some (v, []) \<Rightarrow> Some v | _ \<Rightarrow> None)"

section \<open>The raw order book and incremental updates\<close>

text \<open>
  \<^verbatim>\<open>rawOrderbook\<close>: each side is an array of \<^verbatim>\<open>[price, amount]\<close> pairs of strings,
  \<^verbatim>\<open>lastUpdateId\<close> is the id of the last update applied (\<open>None\<close> when the field holds
  \<^verbatim>\<open>undefined\<close>). The value is typed \<^verbatim>\<open>any\<close> in the source; the model covers the
  books whose sides are arrays of such pairs.
\<close>

type_synonym level = "string \<times> string"

record orderbook =
  bids :: "level list"
  asks :: "level list"
  lastUpdateId :: "int option"

text \<open>The initial value of \<^verbatim>\<open>rawOrderbook\<close>.\<close>

definition initial_orderbook :: orderbook where
  "initial_orderbook = \<lparr>bids = [], asks = [], lastUpdateId = Some 0\<rparr>"

text \<open>
  One element of \<^verbatim>\<open>data.bids\<close> or \<^verbatim>\<open>data.asks\<close>. The callback destructures it with
  \<^verbatim>\<open>([price, amount]: [string, string])\<close>: \<open>Change price amount\<close> is a pair of strings,
  \<open>NotIterable\<close> is an element that cannot be destructured (\<^verbatim>\<open>null\<close>, a number, a plain
  object), on which the destructuring throws a \<^verbatim>\<open>TypeError\<close>.
\<close>

datatype change = Change string string | NotIterable

text \<open>
  The payload \<^verbatim>\<open>data\<close> of a depth message. \<^verbatim>\<open>updateOrderbook\<close> reads
  \<^verbatim>\<open>data.lastUpdateId\<close>, \<^verbatim>\<open>data.bids\<close> and \<^verbatim>\<open>data.asks\<close> (\<open>None\<close>: the field is
  missing). \<open>d_firstId\<close> and \<open>d_prevFinalId\<close> are the two other sequence fields a diff
  message carries; no code reads them.
\<close>

record depth_update =
  d_lastUpdateId :: "int option"
  d_bids :: "change list option"
  d_asks :: "change list option"
  d_firstId :: "int option"
  d_prevFinalId :: "int option"

text \<open>
  The result of code that mutates the book and may throw: \<open>Done s\<close> when it ran to
  its end, \<open>Thrown s\<close> when it threw, \<open>s\<close> being the state the mutations had reached.
\<close>

datatype 'a outcome = Done 'a | Thrown 'a

text \<open>\<^verbatim>\<open>xs.findIndex(P)\<close>, with \<open>None\<close> for \<^verbatim>\<open>-1\<close>.\<close>

fun findIndex :: "('a \<Rightarrow> bool) \<Rightarrow> 'a list \<Rightarrow> nat option" where
  "findIndex P [] = None"
| "findIndex P (x # xs) = (if P x then Some 0 else map_option Suc (findIndex P xs))"

text \<open>\<^verbatim>\<open>xs.splice(i, 1)\<close>.\<close>

definition splice1 :: "nat \<Rightarrow> 'a list \<Rightarrow> 'a list" where
  "splice1 i xs = take i xs @ drop (Suc i) xs"

text \<open>
  The body of the \<^verbatim>\<open>forEach\<close> callback of \<^verbatim>\<open>applyDepthUpdate\<close> for one
  \<^verbatim>\<open>[price, amount]\<close>: the level is looked up by comparing the stored price string
  with the incoming one (\<^verbatim>\<open>bid[0] === price\<close>); \<^verbatim>\<open>amountNum === 0\<close> deletes it,
  any other amount replaces it or appends a new level.
\<close>

definition applyLevel :: "level list \<Rightarrow> string \<Rightarrow> string \<Rightarrow> level list" where
  "applyLevel side price amount =
     (let amountNum = parseFloat amount;
          index = findIndex (\<lambda>bid. fst bid = price) side
      in if amountNum = Some 0
         then (case index of Some i \<Rightarrow> splice1 i side | None \<Rightarrow> side)
         else (case index of Some i \<Rightarrow> side[i := (price, amount)]
                           | None \<Rightarrow> side @ [(price, amount)]))"

text \<open>\<^verbatim>\<open>changes.forEach(..)\<close> over one side: it stops where the destructuring throws.\<close>

fun forEach_changes :: "change list \<Rightarrow> level list \<Rightarrow> level list outcome" where
  "forEach_changes [] side = Done side"
| "forEach_changes (NotIterable # cs) side = Thrown side"
| "forEach_changes (Change price amount # cs) side =
     forEach_changes cs (applyLevel side price amount)"

text \<open>
  \<^verbatim>\<open>xs.sort(compare)\<close>: a stable sort; \<open>a\<close> goes behind \<open>b\<close> when \<^verbatim>\<open>compare(a, b) > 0\<close>,
  and a \<^verbatim>\<open>NaN\<close> from the comparator counts as \<open>0\<close>. With a comparator that orders the
  elements consistently every stable sort gives this result; with an inconsistent
  one (prices that are \<^verbatim>\<open>NaN\<close>) the language leaves the order to the implementation,
  and the model is the insertion sort below.
\<close>

definition positive :: "jsnum \<Rightarrow> bool" where
  "positive v = (case v of Some x \<Rightarrow> 0 < x | None \<Rightarrow> False)"

fun insert_by :: "('a \<Rightarrow> 'a \<Rightarrow> jsnum) \<Rightarrow> 'a \<Rightarrow> 'a list \<Rightarrow> 'a list" where
  "insert_by compare x [] = [x]"
| "insert_by compare x (y # ys) =
     (if positive (compare x y) then y # insert_by compare x ys else x # y # ys)"

definition sort_by :: "('a \<Rightarrow> 'a \<Rightarrow> jsnum) \<Rightarrow> 'a list \<Rightarrow> 'a list" where
  "sort_by compare xs = foldr (insert_by compare) xs []"

text \<open>The two comparators: bids from the highest price down, asks from the lowest up.\<close>

definition bidCompare :: "level \<Rightarrow> level \<Rightarrow> jsnum" where
  "bidCompare a b = js_sub (parseFloat (fst b)) (parseFloat (fst a))"

definition askCompare :: "level \<Rightarrow> level \<Rightarrow> jsnum" where
  "askCompare a b = js_sub (parseFloat (fst a)) (parseFloat (fst b))"

text \<open>
  \<^verbatim>\<open>applyDepthUpdate(data)\<close> has two blocks, one after the other: the bid changes
  followed by the sort of the bids, then the ask changes followed by the sort of
  the asks. A side whose field is missing is left alone. A throw ends the function
  and leaves the book as the changes before it made it, unsorted.
\<close>

definition updateBids :: "depth_update \<Rightarrow> orderbook \<Rightarrow> orderbook outcome" where
  "updateBids data book =
     (case d_bids data of
        None \<Rightarrow> Done book
      | Some cs \<Rightarrow>
          (case forEach_changes cs (bids book) of
             Thrown side \<Rightarrow> Thrown (book\<lparr>bids := side\<rparr>)
           | Done side \<Rightarrow> Done (book\<lparr>bids := sort_by bidCompare side\<rparr>)))"

definition updateAsks :: "depth_update \<Rightarrow> orderbook \<Rightarrow> orderbook outcome" where
  "updateAsks data book =
     (case d_asks data of
        None \<Rightarrow> Done book
      | Some cs \<Rightarrow>
          (case forEach_changes cs (asks book) of
             Thrown side \<Rightarrow> Thrown (book\<lparr>asks := side\<rparr>)
           | Done side \<Rightarrow> Done (book\<lparr>asks := sort_by askCompare side\<rparr>)))"

definition applyDepthUpdate :: "depth_update \<Rightarrow> orderbook \<Rightarrow> orderbook outcome" where
  "applyDepthUpdate data book =
     (case updateBids data book of
        Thrown book1 \<Rightarrow> Thrown book1
      | Done book1 \<Rightarrow> updateAsks data book1)"

text \<open>
  \<^verbatim>\<open>updateOrderbook(data)\<close>: a message whose id is not above the stored one returns at
  once; otherwise the changes are applied and the stored id is set. The whole body
  is inside \<^verbatim>\<open>try { .. } catch\<close>, which logs the error and goes on with the book as
  it is. (\<^verbatim>\<open>addFlashEffect\<close> only schedules changes of the page and does not touch
  the book.)
\<close>

definition updateOrderbook :: "depth_update \<Rightarrow> orderbook \<Rightarrow> orderbook" where
  "updateOrderbook data book =
     (if js_le (d_lastUpdateId data) (lastUpdateId book) then book
      else (case applyDepthUpdate data book of
              Thrown book1 \<Rightarrow> book1
            | Done book1 \<Rightarrow> book1\<lparr>lastUpdateId := d_lastUpdateId data\<rparr>))"

section \<open>Loading a snapshot and the states a book can reach\<close>

text \<open>
  \<^verbatim>\<open>initOrderbook\<close> stores the response of \<^verbatim>\<open>getOrderBook\<close> as it came:
  \<^verbatim>\<open>rawOrderbook.value = initialData\<close>. A depth message goes through
  \<^verbatim>\<open>updateOrderbook\<close>.
\<close>

datatype book_event = SnapshotLoaded orderbook | DepthMessage depth_update

fun book_step :: "orderbook \<Rightarrow> book_event \<Rightarrow> orderbook" where
  "book_step book (SnapshotLoaded initialData) = initialData"
| "book_step book (DepthMessage data) = updateOrderbook data book"

definition run_events :: "book_event list \<Rightarrow> orderbook" where
  "run_events es = foldl book_step initial_orderbook es"

text \<open>The numeric price and quantity of a stored level.\<close>

definition level_price :: "level \<Rightarrow> jsnum" where
  "level_price l = parseFloat (fst l)"

definition level_amount :: "level \<Rightarrow> jsnum" where
  "level_amount l = parseFloat (snd l)"

definition js_less :: "jsnum \<Rightarrow> jsnum \<Rightarrow> bool" where
  "js_less a b = (case (a, b) of (Some x, Some y) \<Rightarrow> x < y | _ \<Rightarrow> False)"

definition js_less_eq :: "jsnum \<Rightarrow> jsnum \<Rightarrow> bool" where
  "js_less_eq a b = (case (a, b) of (Some x, Some y) \<Rightarrow> x \<le> y | _ \<Rightarrow> False)"

text \<open>
  The invariant as the specification words it: bids strictly decreasing and asks
  strictly increasing in price (so no two levels of a side at one price), every
  quantity above zero.
\<close>

definition spec_book_invariant :: "orderbook \<Rightarrow> bool" where
  "spec_book_invariant book =
     (sorted_wrt (\<lambda>a b. js_less (level_price b) (level_price a)) (bids book) \<and>
      sorted_wrt (\<lambda>a b. js_less (level_price a) (level_price b)) (asks book) \<and>
      list_all (\<lambda>l. positive (level_amount l)) (bids book) \<and>
      list_all (\<lambda>l. positive (level_amount l)) (asks book))"

text \<open>
  What the code keeps for one side: no two levels with the same price string, every
  price a number, no quantity that reads as zero, and the levels in the order
  \<open>before\<close> of their prices, equal prices allowed.
\<close>

definition side_invariant :: "(rat \<Rightarrow> rat \<Rightarrow> bool) \<Rightarrow> level list \<Rightarrow> bool" where
  "side_invariant before side =
     (distinct (map fst side) \<and>
      list_all (\<lambda>l. level_price l \<noteq> None) side \<and>
      list_all (\<lambda>l. level_amount l \<noteq> Some 0) side \<and>
      sorted_wrt (\<lambda>a b. before (the (level_price a)) (the (level_price b))) side)"

definition book_invariant :: "orderbook \<Rightarrow> bool" where
  "book_invariant book =
     (side_invariant (\<lambda>x y. y \<le> x) (bids book) \<and> side_invariant (\<lambda>x y. x \<le> y) (asks book))"

text \<open>A change that is a pair whose price is a number.\<close>

fun priced_change :: "change \<Rightarrow> bool" where
  "priced_change (Change price amount) = (parseFloat price \<noteq> None)"
| "priced_change NotIterable = False"

definition priced_changes :: "change list option \<Rightarrow> bool" where
  "priced_changes f = (case f of None \<Rightarrow> True | Some cs \<Rightarrow> list_all priced_change cs)"

fun regular_event :: "book_event \<Rightarrow> bool" where
  "regular_event (SnapshotLoaded initialData) = book_invariant initialData"
| "regular_event (DepthMessage data) = (priced_changes (d_bids data) \<and> priced_changes (d_asks data))"



text \<open>
  A side seen as a map from price string to quantity string, and one change on
  that map: a quantity that reads as zero deletes the entry of the price string,
  any other quantity becomes the entry. Two strings for one number, such as
  \<^verbatim>\<open>1.5\<close> and \<^verbatim>\<open>1.50\<close>, are two keys of this map.
\<close>

definition keyed_change :: "(string \<rightharpoonup> string) \<Rightarrow> string \<times> string \<Rightarrow> (string \<rightharpoonup> string)" where
  "keyed_change m c =
     (if parseFloat (snd c) = Some 0 then m(fst c := None) else m(fst c \<mapsto> snd c))"

definition pair_changes :: "(string \<times> string) list \<Rightarrow> change list" where
  "pair_changes ps = map (\<lambda>c. Change (fst c) (snd c)) ps"

text \<open>
  A field of a message carries the changes \<open>ps\<close> when every element of it is a
  pair, the pairs being \<open>ps\<close> in their order; a missing field carries none.
\<close>

definition carries :: "change list option \<Rightarrow> (string \<times> string) list \<Rightarrow> bool" where
  "carries f ps = (f = None \<and> ps = [] \<or> f = Some (pair_changes ps))"

text \<open>The callback run over a list of pairs, one after the other.\<close>

definition apply_pairs :: "level list \<Rightarrow> (string \<times> string) list \<Rightarrow> level list" where
  "apply_pairs side ps = foldl (\<lambda>s c. applyLevel s (fst c) (snd c)) side ps"

section \<open>Grouping by precision\<close>

text \<open>
  \<^verbatim>\<open>new Decimal(price).toFixed(precision)\<close>: decimal.js rounds to \<open>precision\<close> decimal
  places with its default rounding mode \<^verbatim>\<open>ROUND_HALF_UP\<close> (to the nearest, halves away
  from zero; the component never changes the mode) and writes a minus
  sign when the value before rounding is negative. The string is modelled by what
  determines it for a given precision: the minus sign and the digits, as the
  number of units of \<open>10 ^ - precision\<close>.
\<close>

type_synonym price_key = "bool \<times> nat"

definition toFixed :: "rat \<Rightarrow> nat \<Rightarrow> price_key" where
  "toFixed x precision = (x < 0, nat \<lfloor>\<bar>x\<bar> * 10 ^ precision + 1 / 2\<rfloor>)"

text \<open>\<^verbatim>\<open>parseFloat\<close> of such a string.\<close>

definition key_value :: "price_key \<Rightarrow> nat \<Rightarrow> rat" where
  "key_value k precision =
     (if fst k then - (of_nat (snd k) / 10 ^ precision) else of_nat (snd k) / 10 ^ precision)"

text \<open>
  A \<^verbatim>\<open>Map\<close> keeps its keys in the order of their first insertion: \<^verbatim>\<open>get\<close> is
  \<open>map_of\<close>, \<^verbatim>\<open>set\<close> is \<open>map_set\<close>.
\<close>

fun map_set :: "'k \<Rightarrow> 'v \<Rightarrow> ('k \<times> 'v) list \<Rightarrow> ('k \<times> 'v) list" where
  "map_set k v [] = [(k, v)]"
| "map_set k v (e # m) = (if fst e = k then (k, v) # m else e # map_set k v m)"

text \<open>The \<^verbatim>\<open>forEach\<close> of \<^verbatim>\<open>groupByPrecision\<close>; \<open>None\<close> when \<^verbatim>\<open>new Decimal\<close> throws.\<close>

fun group_levels :: "level list \<Rightarrow> nat \<Rightarrow> (price_key \<times> jsnum) list \<Rightarrow> (price_key \<times> jsnum) list option" where
  "group_levels [] precision grouped = Some grouped"
| "group_levels (order # orders) precision grouped =
     (case Decimal (fst order) of
        None \<Rightarrow> None
      | Some x \<Rightarrow>
          (let roundedPrice = toFixed x precision;
               currentAmount = or0 (map_of grouped roundedPrice)
           in group_levels orders precision
                (map_set roundedPrice (js_add currentAmount (parseFloat (snd order))) grouped)))"

record grouped_level =
  price :: rat
  amount :: jsnum

definition groupByPrecision :: "level list \<Rightarrow> nat \<Rightarrow> grouped_level list option" where
  "groupByPrecision orders precision =
     map_option (map (\<lambda>e. \<lparr>price = key_value (fst e) precision, amount = snd e\<rparr>))
       (group_levels orders precision [])"

text \<open>The roundings the specification asks for: bids down, asks up.\<close>

definition spec_round_down :: "rat \<Rightarrow> nat \<Rightarrow> rat" where
  "spec_round_down x precision = of_int \<lfloor>x * 10 ^ precision\<rfloor> / 10 ^ precision"

definition spec_round_up :: "rat \<Rightarrow> nat \<Rightarrow> rat" where
  "spec_round_up x precision = of_int \<lceil>x * 10 ^ precision\<rceil> / 10 ^ precision"

text \<open>The rounding of \<open>toFixed\<close> as a number, and the keys of a list in the order they first occur.\<close>

definition round_half_up :: "rat \<Rightarrow> nat \<Rightarrow> rat" where
  "round_half_up x precision = key_value (toFixed x precision) precision"

fun first_occurrences :: "'a list \<Rightarrow> 'a list" where
  "first_occurrences [] = []"
| "first_occurrences (x # xs) = x # filter (\<lambda>y. y \<noteq> x) (first_occurrences xs)"

text \<open>A side whose prices are non-negative decimal literals and whose quantities are numbers.\<close>

definition decimal_side :: "level list \<Rightarrow> bool" where
  "decimal_side orders =
     list_all (\<lambda>l. (case Decimal (fst l) of Some x \<Rightarrow> 0 \<le> x | None \<Rightarrow> False) \<and>
                    parseFloat (snd l) \<noteq> None) orders"

text \<open>The numbers read from a level of such a side (\<open>0\<close> where none is read).\<close>

definition decimal_price :: "level \<Rightarrow> rat" where
  "decimal_price l = (case Decimal (fst l) of Some x \<Rightarrow> x | None \<Rightarrow> 0)"

definition numeric_amount :: "level \<Rightarrow> rat" where
  "numeric_amount l = (case parseFloat (snd l) of Some a \<Rightarrow> a | None \<Rightarrow> 0)"

section \<open>Cumulative depth\<close>

record depth_level = grouped_level +
  total :: jsnum
  depthPercentage :: jsnum
  isUpdated :: bool
  changeType :: string

text \<open>
  \<^verbatim>\<open>Math.max(...xs)\<close>: \<^verbatim>\<open>NaN\<close> when an argument is \<^verbatim>\<open>NaN\<close>, \<^verbatim>\<open>-Infinity\<close> (not a finite
  number) when there is none.
\<close>

definition js_max :: "jsnum \<Rightarrow> jsnum \<Rightarrow> jsnum" where
  "js_max a b = (case (a, b) of (Some x, Some y) \<Rightarrow> Some (max x y) | _ \<Rightarrow> None)"

fun math_max :: "jsnum list \<Rightarrow> jsnum" where
  "math_max [] = None"
| "math_max [x] = x"
| "math_max (x # y # ys) = js_max x (math_max (y # ys))"

text \<open>The \<^verbatim>\<open>map\<close> of \<^verbatim>\<open>calculateDepth\<close>, with the running \<^verbatim>\<open>total\<close> passed along.\<close>

fun depth_rows :: "jsnum \<Rightarrow> jsnum \<Rightarrow> grouped_level list \<Rightarrow> depth_level list" where
  "depth_rows tot maxAmount [] = []"
| "depth_rows tot maxAmount (order # orders) =
     \<lparr>price = price order, amount = amount order,
      total = js_add tot (amount order),
      depthPercentage = js_mul (js_div (amount order) maxAmount) (Some 100),
      isUpdated = False, changeType = []\<rparr>
     # depth_rows (js_add tot (amount order)) maxAmount orders"

text \<open>The quantity of a grouped level as a number (\<open>0\<close> where it is not one).\<close>

definition quantity :: "grouped_level \<Rightarrow> rat" where
  "quantity order = (case amount order of Some a \<Rightarrow> a | None \<Rightarrow> 0)"

definition calculateDepth :: "grouped_level list \<Rightarrow> depth_level list" where
  "calculateDepth orders = depth_rows (Some 0) (math_max (map amount orders)) orders"

text \<open>
  \<^verbatim>\<open>processedOrderbook\<close>: both sides grouped, the depth computed over each whole
  grouped side, and then the first \<^verbatim>\<open>currentDepth\<close> rows kept. \<open>None\<close> when the
  grouping throws. (Both sides of a book are arrays here, so the guard that
  returns two empty lists for a missing side is never taken.)
\<close>

record display_book =
  display_bids :: "depth_level list"
  display_asks :: "depth_level list"

definition processedOrderbook :: "orderbook \<Rightarrow> nat \<Rightarrow> nat \<Rightarrow> display_book option" where
  "processedOrderbook book currentPrecision currentDepth =
     (case groupByPrecision (bids book) currentPrecision of
        None \<Rightarrow> None
      | Some groupedBids \<Rightarrow>
          (case groupByPrecision (asks book) currentPrecision of
             None \<Rightarrow> None
           | Some groupedAsks \<Rightarrow>
               Some \<lparr>display_bids = take currentDepth (calculateDepth groupedBids),
                     display_asks = take currentDepth (calculateDepth groupedAsks)\<rparr>))"

text \<open>
  \<^verbatim>\<open>displayBids\<close> is the bid rows, \<^verbatim>\<open>displayAsks\<close> the ask rows reversed;
  \<^verbatim>\<open>bestBid\<close> is the price of the first row of \<^verbatim>\<open>displayBids\<close>, \<^verbatim>\<open>bestAsk\<close> the price
  of the last row of \<^verbatim>\<open>displayAsks\<close>, each \<open>0\<close> when there is no row
  (\<^verbatim>\<open>?.price || 0\<close>); \<^verbatim>\<open>spread\<close> is their difference.
\<close>

definition displayBids :: "display_book \<Rightarrow> depth_level list" where
  "displayBids pb = display_bids pb"

definition displayAsks :: "display_book \<Rightarrow> depth_level list" where
  "displayAsks pb = rev (display_asks pb)"

definition bestBid :: "display_book \<Rightarrow> rat" where
  "bestBid pb = (case displayBids pb of [] \<Rightarrow> 0 | row # rows \<Rightarrow> price row)"

definition bestAsk :: "display_book \<Rightarrow> rat" where
  "bestAsk pb = (if displayAsks pb = [] then 0 else price (last (displayAsks pb)))"

definition spread :: "display_book \<Rightarrow> rat" where
  "spread pb = bestAsk pb - bestBid pb"

text \<open>
  The depth percentage of the specification: \<^verbatim>\<open>round(100 * quantity / max)\<close>, the
  maximum taken over the rows that are displayed.
\<close>

definition spec_depthPercent :: "rat list \<Rightarrow> rat \<Rightarrow> int" where
  "spec_depthPercent window q = \<lfloor>100 * q / Max (set window) + 1 / 2\<rfloor>"

section \<open>The session: symbol changes and pending snapshot requests\<close>

text \<open>
  The component as a state machine over the events of its single thread.
  \<open>pending\<close> lists the calls of \<^verbatim>\<open>getOrderBook\<close> that have not resolved yet, oldest
  first, each with the symbol it was made for. When \<^verbatim>\<open>props.symbol\<close> changes the
  watcher calls \<^verbatim>\<open>initOrderbook\<close>, which makes a new call. When a call resolves
  \<^verbatim>\<open>initOrderbook\<close> goes on behind its \<^verbatim>\<open>await\<close> with
  \<^verbatim>\<open>rawOrderbook.value = initialData\<close>; when it rejects, the \<^verbatim>\<open>catch\<close> sets the error
  flag and the book stays. The store that serves \<^verbatim>\<open>getOrderBook\<close> is outside the
  component: its responses are events, in any order. So is the socket: a
  \<open>DepthReceived\<close> event is one call of the depth callback, whatever subscription it
  comes from.
\<close>

record session =
  symbol :: string
  rawOrderbook :: orderbook
  pending :: "string list"
  hasError :: bool

datatype session_event =
    SymbolChanged string
  | SnapshotResolved nat orderbook
  | SnapshotRejected nat
  | DepthReceived depth_update

fun session_step :: "session \<Rightarrow> session_event \<Rightarrow> session" where
  "session_step s (SymbolChanged newSymbol) =
     s\<lparr>symbol := newSymbol, pending := pending s @ [newSymbol], hasError := False\<rparr>"
| "session_step s (SnapshotResolved i initialData) =
     (if i < length (pending s)
      then s\<lparr>rawOrderbook := initialData, pending := splice1 i (pending s)\<rparr>
      else s)"
| "session_step s (SnapshotRejected i) =
     (if i < length (pending s)
      then s\<lparr>pending := splice1 i (pending s), hasError := True\<rparr>
      else s)"
| "session_step s (DepthReceived data) =
     s\<lparr>rawOrderbook := updateOrderbook data (rawOrderbook s)\<rparr>"

text \<open>The component once mounted for a symbol: its first snapshot request is pending.\<close>

definition mounted :: "string \<Rightarrow> session" where
  "mounted instrument =
     \<lparr>symbol = instrument, rawOrderbook = initial_orderbook, pending = [instrument],
      hasError = False\<rparr>"

definition run_session :: "session \<Rightarrow> session_event list \<Rightarrow> session" where
  "run_session s es = foldl session_step s es"

section \<open>Evaluating the parsers and the update on concrete inputs\<close>

lemmas parse_defs = parseFloat_def Decimal_def scan_decimal_def scan_exponent_def scan_sign_def
  is_digit_def is_space_def digits_value_def Let_def

lemma parseFloat_examples:
  "parseFloat ''0'' = Some 0" "parseFloat ''1'' = Some 1" "parseFloat ''2'' = Some 2"
  "parseFloat ''100'' = Some 100" "parseFloat ''101'' = Some 101" "parseFloat ''102'' = Some 102"
  "parseFloat ''1.5'' = Some (3 / 2)" "parseFloat ''1.50'' = Some (3 / 2)"
  "parseFloat ''-1'' = Some (- 1)" "parseFloat ''abc'' = None"
  by (simp_all add: parse_defs)

text \<open>The callback seen as a recursion over the side: the first level with the price string is hit.\<close>

lemma applyLevel_Nil:
  "applyLevel [] p a = (if parseFloat a = Some 0 then [] else [(p, a)])"
  by (simp add: applyLevel_def)

lemma applyLevel_Cons:
  "applyLevel (l # side) p a =
     (if fst l = p then (if parseFloat a = Some 0 then side else (p, a) # side)
      else l # applyLevel side p a)"
  by (cases "findIndex (\<lambda>bid. fst bid = p) side") (simp_all add: applyLevel_def splice1_def)

lemmas book_eval = updateOrderbook_def applyDepthUpdate_def updateBids_def updateAsks_def
  js_le_def applyLevel_Nil applyLevel_Cons sort_by_def bidCompare_def askCompare_def
  js_sub_def positive_def parseFloat_examples

section \<open>One change on one side\<close>

lemma applyLevel_set:
  "set (applyLevel side p a) \<subseteq> (if parseFloat a = Some 0 then set side else insert (p, a) (set side))"
  by (induction side) (auto simp: applyLevel_Nil applyLevel_Cons)

lemma applyLevel_keys: "fst ` set (applyLevel side p a) \<subseteq> insert p (fst ` set side)"
  using applyLevel_set[of side p a] by (auto split: if_splits)

lemma applyLevel_distinct:
  "distinct (map fst side) \<Longrightarrow> distinct (map fst (applyLevel side p a))"
proof (induction side)
  case Nil
  then show ?case by (simp add: applyLevel_Nil)
next
  case (Cons l side)
  have "fst l \<noteq> p \<Longrightarrow> fst l \<notin> fst ` set (applyLevel side p a)"
    using applyLevel_keys[of side p a] Cons.prems by auto
  with Cons show ?case by (auto simp: applyLevel_Cons)
qed

lemma applyLevel_stores:
  "parseFloat a \<noteq> Some 0 \<Longrightarrow> (p, a) \<in> set (applyLevel side p a)"
  by (induction side) (auto simp: applyLevel_Nil applyLevel_Cons)

lemma applyLevel_absent:
  "p \<notin> fst ` set side \<Longrightarrow>
   applyLevel side p a = (if parseFloat a = Some 0 then side else side @ [(p, a)])"
  by (induction side) (auto simp: applyLevel_Nil applyLevel_Cons)

lemma applyLevel_map_of:
  "distinct (map fst side) \<Longrightarrow> map_of (applyLevel side p a) = keyed_change (map_of side) (p, a)"
proof (induction side)
  case Nil
  then show ?case by (simp add: applyLevel_Nil keyed_change_def)
next
  case (Cons l side)
  obtain k v where l: "l = (k, v)" by (cases l)
  show ?case
  proof (cases "k = p")
    case True
    then have "map_of side p = None" using Cons.prems l by (simp add: map_of_eq_None_iff)
    then show ?thesis using True l
      by (auto simp: applyLevel_Cons keyed_change_def fun_eq_iff)
  next
    case False
    then show ?thesis using Cons l
      by (auto simp: applyLevel_Cons keyed_change_def fun_eq_iff)
  qed
qed

lemma forEach_pair_changes:
  "forEach_changes (pair_changes ps) side = Done (foldl (\<lambda>s c. applyLevel s (fst c) (snd c)) side ps)"
  by (induction ps arbitrary: side) (simp_all add: pair_changes_def)

lemma apply_pairs_map_of:
  "distinct (map fst side) \<Longrightarrow>
   distinct (map fst (foldl (\<lambda>s c. applyLevel s (fst c) (snd c)) side ps)) \<and>
   map_of (foldl (\<lambda>s c. applyLevel s (fst c) (snd c)) side ps) = foldl keyed_change (map_of side) ps"
  by (induction ps arbitrary: side) (simp_all add: applyLevel_distinct applyLevel_map_of)

lemma set_insert_by: "set (insert_by cmp x ys) = insert x (set ys)"
  by (induction ys) auto

lemma sort_by_Cons: "sort_by cmp (x # xs) = insert_by cmp x (sort_by cmp xs)"
  by (simp add: sort_by_def)

lemma set_sort_by: "set (sort_by cmp xs) = set xs"
  by (induction xs) (simp_all add: sort_by_Cons set_insert_by, simp add: sort_by_def)

lemma distinct_insert_by:
  "distinct (map f (insert_by cmp x ys)) = (f x \<notin> f ` set ys \<and> distinct (map f ys))"
  by (induction ys) (auto simp: set_insert_by)

lemma distinct_sort_by: "distinct (map f (sort_by cmp xs)) = distinct (map f xs)"
  by (induction xs) (simp_all add: sort_by_Cons distinct_insert_by set_sort_by, simp add: sort_by_def)

lemma map_of_sort_by:
  "distinct (map fst xs) \<Longrightarrow> map_of (sort_by cmp xs) = map_of xs"
  by (simp add: map_of_inject_set distinct_sort_by set_sort_by)

lemma insert_by_sorted:
  assumes tr: "\<And>a b c. R a b \<Longrightarrow> R b c \<Longrightarrow> R a c"
    and pos: "\<And>y. y \<in> set ys \<Longrightarrow> positive (cmp x y) \<Longrightarrow> R y x"
    and npos: "\<And>y. y \<in> set ys \<Longrightarrow> \<not> positive (cmp x y) \<Longrightarrow> R x y"
    and srt: "sorted_wrt R ys"
  shows "sorted_wrt R (insert_by cmp x ys)"
  using pos npos srt
proof (induction ys)
  case Nil
  then show ?case by simp
next
  case (Cons y ys)
  show ?case
  proof (cases "positive (cmp x y)")
    case True
    have "sorted_wrt R (insert_by cmp x ys)"
      using Cons by simp
    moreover have "R y x" using Cons.prems(1) True by simp
    ultimately show ?thesis using True Cons.prems(3) by (auto simp: set_insert_by)
  next
    case False
    have xy: "R x y" using Cons.prems(2) False by simp
    have "\<And>z. z \<in> set ys \<Longrightarrow> R x z"
      using xy Cons.prems(3) tr by auto
    then show ?thesis using False xy Cons.prems(3) by auto
  qed
qed

section \<open>A whole message whose elements are pairs\<close>

lemma forEach_carried:
  "forEach_changes (pair_changes ps) side = Done (apply_pairs side ps)"
  by (simp add: forEach_pair_changes apply_pairs_def)

lemma updateBids_carried:
  "carries (d_bids d) ps \<Longrightarrow>
   updateBids d b = Done (b\<lparr>bids := (if d_bids d = None then bids b else sort_by bidCompare (apply_pairs (bids b) ps))\<rparr>)"
  by (auto simp: carries_def updateBids_def forEach_carried)

lemma updateAsks_carried:
  "carries (d_asks d) ps \<Longrightarrow>
   updateAsks d b = Done (b\<lparr>asks := (if d_asks d = None then asks b else sort_by askCompare (apply_pairs (asks b) ps))\<rparr>)"
  by (auto simp: carries_def updateAsks_def forEach_carried)

lemma applyDepthUpdate_carried:
  assumes "carries (d_bids d) bs" and "carries (d_asks d) ks"
  shows "applyDepthUpdate d b =
     Done (b\<lparr>bids := (if d_bids d = None then bids b else sort_by bidCompare (apply_pairs (bids b) bs)),
             asks := (if d_asks d = None then asks b else sort_by askCompare (apply_pairs (asks b) ks))\<rparr>)"
  using assms by (simp add: applyDepthUpdate_def updateBids_carried updateAsks_carried)

lemma updateOrderbook_carried:
  assumes "carries (d_bids d) bs" and "carries (d_asks d) ks"
    and "\<not> js_le (d_lastUpdateId d) (lastUpdateId b)"
  shows "updateOrderbook d b =
     \<lparr>bids = (if d_bids d = None then bids b else sort_by bidCompare (apply_pairs (bids b) bs)),
      asks = (if d_asks d = None then asks b else sort_by askCompare (apply_pairs (asks b) ks)),
      lastUpdateId = d_lastUpdateId d\<rparr>"
  using assms by (simp add: updateOrderbook_def applyDepthUpdate_carried)

lemma apply_pairs_Nil: "apply_pairs side [] = side"
  by (simp add: apply_pairs_def)

lemma side_map_after:
  assumes "distinct (map fst side)" and "carries f ps"
  shows "map_of (if f = None then side else sort_by cmp (apply_pairs side ps))
         = foldl keyed_change (map_of side) ps"
proof (cases "f = None")
  case True
  then show ?thesis using assms(2) by (simp add: carries_def)
next
  case False
  have "distinct (map fst (apply_pairs side ps))"
    and "map_of (apply_pairs side ps) = foldl keyed_change (map_of side) ps"
    using apply_pairs_map_of[OF assms(1), of ps] by (simp_all add: apply_pairs_def)
  then show ?thesis using False by (auto simp: map_of_sort_by)
qed

lemma applyLevel_keeps:
  "(p, a) \<in> set side \<Longrightarrow> p \<noteq> p' \<Longrightarrow> (p, a) \<in> set (applyLevel side p' a')"
  by (induction side) (auto simp: applyLevel_Nil applyLevel_Cons)

lemma apply_pairs_keeps:
  "(p, a) \<in> set side \<Longrightarrow> p \<notin> fst ` set ps \<Longrightarrow> (p, a) \<in> set (apply_pairs side ps)"
  unfolding apply_pairs_def
  by (induction ps arbitrary: side) (auto simp: applyLevel_keeps)

lemma apply_pairs_append:
  "apply_pairs side (ps @ qs) = apply_pairs (apply_pairs side ps) qs"
  by (simp add: apply_pairs_def)

lemma apply_pairs_Cons:
  "apply_pairs side (c # qs) = apply_pairs (applyLevel side (fst c) (snd c)) qs"
  by (simp add: apply_pairs_def)

lemma apply_pairs_stores:
  assumes "parseFloat a \<noteq> Some 0" and "p \<notin> fst ` set post"
  shows "(p, a) \<in> set (apply_pairs side (pre @ (p, a) # post))"
  using assms by (simp add: apply_pairs_append apply_pairs_Cons apply_pairs_keeps applyLevel_stores)

section \<open>Sequencing: stale messages and the missing gap check\<close>




section \<open>Price levels are found by their price string\<close>


section \<open>What an applied message does to the levels\<close>

text \<open>
  Claim C3 does not hold as stated, with a level identified by its price. The bid
  side holds one level, at the price 100, written \<^verbatim>\<open>100.0\<close>. The change
  \<^verbatim>\<open>["100", "0"]\<close>, at the same price with quantity zero, is accepted and removes
  nothing; the change \<^verbatim>\<open>["100", "3"]\<close> is accepted and does not replace the stored
  quantity 1 but adds a second level at the price 100.
\<close>

theorem equal_price_other_string_is_not_the_level:
  "parseFloat ''100'' = Some 100 \<and> level_price (''100.0'', ''1'') = Some 100 \<and>
   parseFloat ''0'' = Some 0 \<and> parseFloat ''3'' = Some 3 \<and>
   updateOrderbook
     \<lparr>d_lastUpdateId = Some 6, d_bids = Some [Change ''100'' ''0''], d_asks = Some [],
      d_firstId = Some 6, d_prevFinalId = None\<rparr>
     \<lparr>bids = [(''100.0'', ''1'')], asks = [(''101'', ''1'')], lastUpdateId = Some 5\<rparr>
   = \<lparr>bids = [(''100.0'', ''1'')], asks = [(''101'', ''1'')], lastUpdateId = Some 6\<rparr> \<and>
   updateOrderbook
     \<lparr>d_lastUpdateId = Some 6, d_bids = Some [Change ''100'' ''3''], d_asks = Some [],
      d_firstId = Some 6, d_prevFinalId = None\<rparr>
     \<lparr>bids = [(''100.0'', ''1'')], asks = [(''101'', ''1'')], lastUpdateId = Some 5\<rparr>
   = \<lparr>bids = [(''100.0'', ''1''), (''100'', ''3'')], asks = [(''101'', ''1'')],
      lastUpdateId = Some 6\<rparr>"
proof -
  have p: "parseFloat ''100.0'' = Some 100" "parseFloat ''3'' = Some 3"
    by (simp_all add: parse_defs)
  show ?thesis by (simp add: book_eval level_price_def p)
qed

text \<open>
  Claim C3, amended: a level is identified by its price string, and the claim is
  for a book in which no side holds a price string twice. On such a side, one
  change with quantity zero removes the level with its price string and does
  nothing when no level has that string (a level with the same price under
  another string stays); one change with another quantity makes the given
  quantity the stored one for its price string, whether a level with that string
  was there or not, and never adds to the stored quantity. For such a book and a
  message that is not stale and all of whose elements are \<^verbatim>\<open>[price, amount]\<close>
  pairs, each side is afterwards, as a map from price string to quantity, what the
  changes of the message make of it in their order, and the stored id is the id
  of the message. The snapshot and the diff of the example give an empty bid side
  and the id 6.
\<close>

theorem diff_sets_levels:
  assumes "distinct (map fst (bids b))" and "distinct (map fst (asks b))"
  shows "map_of (applyLevel (bids b) p a) = keyed_change (map_of (bids b)) (p, a) \<and>
         map_of (applyLevel (asks b) p a) = keyed_change (map_of (asks b)) (p, a) \<and>
         (parseFloat a = Some 0 \<and> p \<notin> fst ` set (bids b) \<longrightarrow> applyLevel (bids b) p a = bids b) \<and>
         (parseFloat a = Some 0 \<and> p \<notin> fst ` set (asks b) \<longrightarrow> applyLevel (asks b) p a = asks b) \<and>
         (carries (d_bids d) bs \<and> carries (d_asks d) ks \<and>
          \<not> js_le (d_lastUpdateId d) (lastUpdateId b) \<longrightarrow>
            map_of (bids (updateOrderbook d b)) = foldl keyed_change (map_of (bids b)) bs \<and>
            map_of (asks (updateOrderbook d b)) = foldl keyed_change (map_of (asks b)) ks \<and>
            lastUpdateId (updateOrderbook d b) = d_lastUpdateId d) \<and>
         run_events
           [SnapshotLoaded \<lparr>bids = [(''100'', ''1'')], asks = [(''101'', ''1'')], lastUpdateId = Some 5\<rparr>,
            DepthMessage \<lparr>d_lastUpdateId = Some 6, d_bids = Some [Change ''100'' ''0''],
                          d_asks = Some [], d_firstId = Some 6, d_prevFinalId = None\<rparr>]
         = \<lparr>bids = [], asks = [(''101'', ''1'')], lastUpdateId = Some 6\<rparr>"
proof -
  have whole: "map_of (bids (updateOrderbook d b)) = foldl keyed_change (map_of (bids b)) bs \<and>
            map_of (asks (updateOrderbook d b)) = foldl keyed_change (map_of (asks b)) ks \<and>
            lastUpdateId (updateOrderbook d b) = d_lastUpdateId d"
    if c: "carries (d_bids d) bs" "carries (d_asks d) ks"
      and n: "\<not> js_le (d_lastUpdateId d) (lastUpdateId b)"
  proof -
    have u: "updateOrderbook d b =
       \<lparr>bids = (if d_bids d = None then bids b else sort_by bidCompare (apply_pairs (bids b) bs)),
        asks = (if d_asks d = None then asks b else sort_by askCompare (apply_pairs (asks b) ks)),
        lastUpdateId = d_lastUpdateId d\<rparr>"
      using c n by (rule updateOrderbook_carried)
    show ?thesis
      using side_map_after[OF assms(1) c(1), of bidCompare]
        side_map_after[OF assms(2) c(2), of askCompare]
      by (simp add: u)
  qed
  have ex: "run_events
           [SnapshotLoaded \<lparr>bids = [(''100'', ''1'')], asks = [(''101'', ''1'')], lastUpdateId = Some 5\<rparr>,
            DepthMessage \<lparr>d_lastUpdateId = Some 6, d_bids = Some [Change ''100'' ''0''],
                          d_asks = Some [], d_firstId = Some 6, d_prevFinalId = None\<rparr>]
         = \<lparr>bids = [], asks = [(''101'', ''1'')], lastUpdateId = Some 6\<rparr>"
    by (simp add: run_events_def book_eval)
  have one: "map_of (applyLevel (bids b) p a) = keyed_change (map_of (bids b)) (p, a)"
    "map_of (applyLevel (asks b) p a) = keyed_change (map_of (asks b)) (p, a)"
    "parseFloat a = Some 0 \<and> p \<notin> fst ` set (bids b) \<longrightarrow> applyLevel (bids b) p a = bids b"
    "parseFloat a = Some 0 \<and> p \<notin> fst ` set (asks b) \<longrightarrow> applyLevel (asks b) p a = asks b"
    using assms by (simp_all add: applyLevel_map_of applyLevel_absent)
  show ?thesis using one whole ex by blast
qed

text \<open>
  The amended claim on a book without repeated price strings and a message, not
  stale, with a deletion, an insertion and a replacement.
\<close>

theorem diff_sets_levels_witness:
  "distinct (map fst [(''100'', ''1'')]) \<and> distinct (map fst [(''101'', ''1'')]) \<and>
   carries (Some [Change ''100'' ''0'', Change ''99'' ''3'']) [(''100'', ''0''), (''99'', ''3'')] \<and>
   carries (Some [Change ''101'' ''2'']) [(''101'', ''2'')] \<and>
   \<not> js_le (Some 6) (Some 5) \<and>
   map_of (bids (updateOrderbook
      \<lparr>d_lastUpdateId = Some 6, d_bids = Some [Change ''100'' ''0'', Change ''99'' ''3''],
       d_asks = Some [Change ''101'' ''2''], d_firstId = Some 6, d_prevFinalId = None\<rparr>
      \<lparr>bids = [(''100'', ''1'')], asks = [(''101'', ''1'')], lastUpdateId = Some 5\<rparr>))
   = [''99'' \<mapsto> ''3''] \<and>
   map_of (asks (updateOrderbook
      \<lparr>d_lastUpdateId = Some 6, d_bids = Some [Change ''100'' ''0'', Change ''99'' ''3''],
       d_asks = Some [Change ''101'' ''2''], d_firstId = Some 6, d_prevFinalId = None\<rparr>
      \<lparr>bids = [(''100'', ''1'')], asks = [(''101'', ''1'')], lastUpdateId = Some 5\<rparr>))
   = [''101'' \<mapsto> ''2''] \<and>
   lastUpdateId (updateOrderbook
      \<lparr>d_lastUpdateId = Some 6, d_bids = Some [Change ''100'' ''0'', Change ''99'' ''3''],
       d_asks = Some [Change ''101'' ''2''], d_firstId = Some 6, d_prevFinalId = None\<rparr>
      \<lparr>bids = [(''100'', ''1'')], asks = [(''101'', ''1'')], lastUpdateId = Some 5\<rparr>) = Some 6"
proof -
  have z: "parseFloat ''0'' = Some 0" "parseFloat ''3'' \<noteq> Some 0" "parseFloat ''2'' \<noteq> Some 0"
    by (simp_all add: parse_defs)
  show ?thesis
    using diff_sets_levels
      [of "\<lparr>bids = [(''100'', ''1'')], asks = [(''101'', ''1'')], lastUpdateId = Some 5\<rparr>"
          "''100''" "''0''"
          "\<lparr>d_lastUpdateId = Some 6, d_bids = Some [Change ''100'' ''0'', Change ''99'' ''3''],
            d_asks = Some [Change ''101'' ''2''], d_firstId = Some 6, d_prevFinalId = None\<rparr>"
          "[(''100'', ''0''), (''99'', ''3'')]" "[(''101'', ''2'')]"]
    by (simp add: carries_def pair_changes_def js_le_def keyed_change_def z fun_eq_iff)
qed

section \<open>No rollback\<close>




section \<open>No validation of the payload\<close>

text \<open>
  Claim C8 does not hold as stated: a quantity that is not a number is not zero,
  so the change is stored as it came and the stored id advances; and a message
  without \<^verbatim>\<open>lastUpdateId\<close> is applied and leaves \<^verbatim>\<open>undefined\<close> as the stored id.
\<close>

theorem non_numeric_diff_is_applied:
  "parseFloat ''abc'' = None \<and>
   updateOrderbook
     \<lparr>d_lastUpdateId = Some 6, d_bids = Some [Change ''100'' ''abc''], d_asks = Some [],
      d_firstId = Some 6, d_prevFinalId = None\<rparr>
     \<lparr>bids = [(''100'', ''1'')], asks = [(''101'', ''1'')], lastUpdateId = Some 5\<rparr>
   = \<lparr>bids = [(''100'', ''abc'')], asks = [(''101'', ''1'')], lastUpdateId = Some 6\<rparr> \<and>
   updateOrderbook
     \<lparr>d_lastUpdateId = None, d_bids = None, d_asks = None,
      d_firstId = None, d_prevFinalId = None\<rparr>
     \<lparr>bids = [(''100'', ''1'')], asks = [(''101'', ''1'')], lastUpdateId = Some 5\<rparr>
   = \<lparr>bids = [(''100'', ''1'')], asks = [(''101'', ''1'')], lastUpdateId = None\<rparr>"
  by (simp add: book_eval)

text \<open>
  Claim C8, amended: the component does not validate a message. The callback
  treats a change whose quantity is not a number as a nonzero quantity: it leaves
  the level with the price and quantity strings of the change on the side. For
  a message that is not stale and all of whose elements are \<^verbatim>\<open>[price, amount]\<close>
  pairs, the stored id becomes the id of the message, and a change whose
  quantity is not a number is in the book afterwards, with its strings as sent,
  unless a later change of the same side of the message names the same price
  string. For every message, a side whose field is missing is left as it is, a
  message without an id is never stale, and no snapshot request is issued.
\<close>

theorem unvalidated_diff_is_stored:
  "(parseFloat a = None \<longrightarrow> (p, a) \<in> set (applyLevel side p a)) \<and>
   (carries (d_bids d) bs \<and> carries (d_asks d) ks \<and>
    \<not> js_le (d_lastUpdateId d) (lastUpdateId b) \<longrightarrow>
      lastUpdateId (updateOrderbook d b) = d_lastUpdateId d \<and>
      (parseFloat a = None \<and> bs = pre @ (p, a) # post \<and> p \<notin> fst ` set post
          \<longrightarrow> (p, a) \<in> set (bids (updateOrderbook d b))) \<and>
      (parseFloat a = None \<and> ks = pre @ (p, a) # post \<and> p \<notin> fst ` set post
          \<longrightarrow> (p, a) \<in> set (asks (updateOrderbook d b)))) \<and>
   (d_bids d = None \<longrightarrow> bids (updateOrderbook d b) = bids b) \<and>
   (d_asks d = None \<longrightarrow> asks (updateOrderbook d b) = asks b) \<and>
   \<not> js_le None (lastUpdateId b) \<and>
   pending (session_step s (DepthReceived d)) = pending s"
proof -
  have one: "parseFloat a = None \<longrightarrow> (p, a) \<in> set (applyLevel side p a)"
    by (simp add: applyLevel_stores)
  have whole: "lastUpdateId (updateOrderbook d b) = d_lastUpdateId d \<and>
      (parseFloat a = None \<and> bs = pre @ (p, a) # post \<and> p \<notin> fst ` set post
          \<longrightarrow> (p, a) \<in> set (bids (updateOrderbook d b))) \<and>
      (parseFloat a = None \<and> ks = pre @ (p, a) # post \<and> p \<notin> fst ` set post
          \<longrightarrow> (p, a) \<in> set (asks (updateOrderbook d b)))"
    if c: "carries (d_bids d) bs" "carries (d_asks d) ks"
      and n: "\<not> js_le (d_lastUpdateId d) (lastUpdateId b)"
  proof -
    have u: "updateOrderbook d b =
       \<lparr>bids = (if d_bids d = None then bids b else sort_by bidCompare (apply_pairs (bids b) bs)),
        asks = (if d_asks d = None then asks b else sort_by askCompare (apply_pairs (asks b) ks)),
        lastUpdateId = d_lastUpdateId d\<rparr>"
      using c n by (rule updateOrderbook_carried)
    have stored: "(p, a) \<in> set (if f = None then side' else sort_by cmp (apply_pairs side' ps))"
      if "parseFloat a = None" "carries f ps" "ps = pre @ (p, a) # post" "p \<notin> fst ` set post"
      for f ps side' and cmp :: "level \<Rightarrow> level \<Rightarrow> jsnum"
    proof -
      have nz: "parseFloat a \<noteq> Some 0" using that(1) by simp
      have "f \<noteq> None" using that(2,3) by (auto simp: carries_def)
      then show ?thesis
        using apply_pairs_stores[OF nz that(4), of side' pre] that(3) by (auto simp: set_sort_by)
    qed
    show ?thesis
      using stored[OF _ c(1)] stored[OF _ c(2)] by (simp add: u)
  qed
  have nb: "d_bids d = None \<longrightarrow> bids (updateOrderbook d b) = bids b"
    by (auto simp: updateOrderbook_def applyDepthUpdate_def updateBids_def updateAsks_def
          split: outcome.splits option.splits)
  have na: "d_asks d = None \<longrightarrow> asks (updateOrderbook d b) = asks b"
    by (auto simp: updateOrderbook_def applyDepthUpdate_def updateBids_def updateAsks_def
          split: outcome.splits option.splits)
  have ns: "\<not> js_le None (lastUpdateId b)" by (simp add: js_le_def)
  have np: "pending (session_step s (DepthReceived d)) = pending s" by simp
  show ?thesis using one whole nb na ns np by blast
qed

text \<open>
  The amended claim on a message with the quantity \<^verbatim>\<open>abc\<close> and no ask field: it
  is not stale and its one element is a pair.
\<close>

theorem unvalidated_diff_is_stored_witness:
  "parseFloat ''abc'' = None \<and> \<not> js_le (Some 6) (Some 5) \<and>
   carries (Some [Change ''100'' ''abc'']) [(''100'', ''abc'')] \<and> carries None [] \<and>
   lastUpdateId (updateOrderbook
     \<lparr>d_lastUpdateId = Some 6, d_bids = Some [Change ''100'' ''abc''], d_asks = None,
      d_firstId = Some 6, d_prevFinalId = None\<rparr>
     \<lparr>bids = [(''100'', ''1'')], asks = [(''101'', ''1'')], lastUpdateId = Some 5\<rparr>) = Some 6 \<and>
   (''100'', ''abc'') \<in> set (bids (updateOrderbook
     \<lparr>d_lastUpdateId = Some 6, d_bids = Some [Change ''100'' ''abc''], d_asks = None,
      d_firstId = Some 6, d_prevFinalId = None\<rparr>
     \<lparr>bids = [(''100'', ''1'')], asks = [(''101'', ''1'')], lastUpdateId = Some 5\<rparr>)) \<and>
   asks (updateOrderbook
     \<lparr>d_lastUpdateId = Some 6, d_bids = Some [Change ''100'' ''abc''], d_asks = None,
      d_firstId = Some 6, d_prevFinalId = None\<rparr>
     \<lparr>bids = [(''100'', ''1'')], asks = [(''101'', ''1'')], lastUpdateId = Some 5\<rparr>)
     = [(''101'', ''1'')]"
proof -
  have z: "parseFloat ''abc'' = None" by (simp add: parse_defs)
  have c: "carries (Some [Change ''100'' ''abc'']) [(''100'', ''abc'')]" "carries None []"
    by (simp_all add: carries_def pair_changes_def)
  have n: "\<not> js_le (Some 6) (Some 5)" by (simp add: js_le_def)
  show ?thesis
    using unvalidated_diff_is_stored
      [of "''abc''" "''100''" "[]"
          "\<lparr>d_lastUpdateId = Some 6, d_bids = Some [Change ''100'' ''abc''], d_asks = None,
            d_firstId = Some 6, d_prevFinalId = None\<rparr>"
          "[(''100'', ''abc'')]" "[]"
          "\<lparr>bids = [(''100'', ''1'')], asks = [(''101'', ''1'')], lastUpdateId = Some 5\<rparr>"
          "[]" "[]" "mounted ''BTCUSDT''"] z c n
    by auto
qed

section \<open>What every reachable book satisfies\<close>

lemma apply_level_stays_clean:
  assumes "parseFloat p \<noteq> None"
    and "distinct (map fst side)"
    and "list_all (\<lambda>l. level_price l \<noteq> None) side"
    and "list_all (\<lambda>l. level_amount l \<noteq> Some 0) side"
  shows "distinct (map fst (applyLevel side p a)) \<and>
         list_all (\<lambda>l. level_price l \<noteq> None) (applyLevel side p a) \<and>
         list_all (\<lambda>l. level_amount l \<noteq> Some 0) (applyLevel side p a)"
proof -
  have "\<And>l. l \<in> set (applyLevel side p a) \<Longrightarrow> l \<in> set side \<or> (l = (p, a) \<and> parseFloat a \<noteq> Some 0)"
    using applyLevel_set[of side p a] by (auto split: if_splits)
  then have "\<And>l. l \<in> set (applyLevel side p a) \<Longrightarrow> level_price l \<noteq> None \<and> level_amount l \<noteq> Some 0"
    using assms by (fastforce simp: list_all_iff level_price_def level_amount_def)
  then show ?thesis
    using assms(2) by (simp add: list_all_iff applyLevel_distinct)
qed

lemma forEach_stays_clean:
  assumes "list_all priced_change cs"
    and "distinct (map fst side)"
    and "list_all (\<lambda>l. level_price l \<noteq> None) side"
    and "list_all (\<lambda>l. level_amount l \<noteq> Some 0) side"
  shows "\<exists>side'. forEach_changes cs side = Done side' \<and> distinct (map fst side') \<and>
           list_all (\<lambda>l. level_price l \<noteq> None) side' \<and>
           list_all (\<lambda>l. level_amount l \<noteq> Some 0) side'"
  using assms
proof (induction cs arbitrary: side)
  case Nil
  then show ?case by simp
next
  case (Cons c cs)
  then obtain p a where c: "c = Change p a" and p: "parseFloat p \<noteq> None"
    by (cases c) auto
  have "distinct (map fst (applyLevel side p a)) \<and>
         list_all (\<lambda>l. level_price l \<noteq> None) (applyLevel side p a) \<and>
         list_all (\<lambda>l. level_amount l \<noteq> Some 0) (applyLevel side p a)"
    using apply_level_stays_clean[OF p Cons.prems(2-4)] .
  then show ?case using Cons.IH[of "applyLevel side p a"] Cons.prems(1) c by simp
qed

lemma sort_by_bids_sorted:
  "list_all (\<lambda>l. level_price l \<noteq> None) xs \<Longrightarrow>
   sorted_wrt (\<lambda>a b. the (level_price b) \<le> the (level_price a)) (sort_by bidCompare xs)"
proof (induction xs)
  case Nil
  then show ?case by (simp add: sort_by_def)
next
  case (Cons x xs)
  have num: "\<And>y. y \<in> set (sort_by bidCompare xs) \<Longrightarrow> level_price y \<noteq> None"
    using Cons.prems by (simp add: set_sort_by list_all_iff)
  have x: "level_price x \<noteq> None" using Cons.prems by simp
  show ?case
    unfolding sort_by_Cons
  proof (rule insert_by_sorted)
    show "sorted_wrt (\<lambda>a b. the (level_price b) \<le> the (level_price a)) (sort_by bidCompare xs)"
      using Cons by simp
  next
    fix y assume "y \<in> set (sort_by bidCompare xs)" "positive (bidCompare x y)"
    then show "the (level_price x) \<le> the (level_price y)"
      using num[of y] x by (auto simp: bidCompare_def js_sub_def positive_def level_price_def)
  next
    fix y assume "y \<in> set (sort_by bidCompare xs)" "\<not> positive (bidCompare x y)"
    then show "the (level_price y) \<le> the (level_price x)"
      using num[of y] x by (auto simp: bidCompare_def js_sub_def positive_def level_price_def)
  qed auto
qed

lemma sort_by_asks_sorted:
  "list_all (\<lambda>l. level_price l \<noteq> None) xs \<Longrightarrow>
   sorted_wrt (\<lambda>a b. the (level_price a) \<le> the (level_price b)) (sort_by askCompare xs)"
proof (induction xs)
  case Nil
  then show ?case by (simp add: sort_by_def)
next
  case (Cons x xs)
  have num: "\<And>y. y \<in> set (sort_by askCompare xs) \<Longrightarrow> level_price y \<noteq> None"
    using Cons.prems by (simp add: set_sort_by list_all_iff)
  have x: "level_price x \<noteq> None" using Cons.prems by simp
  show ?case
    unfolding sort_by_Cons
  proof (rule insert_by_sorted)
    show "sorted_wrt (\<lambda>a b. the (level_price a) \<le> the (level_price b)) (sort_by askCompare xs)"
      using Cons by simp
  next
    fix y assume "y \<in> set (sort_by askCompare xs)" "positive (askCompare x y)"
    then show "the (level_price y) \<le> the (level_price x)"
      using num[of y] x by (auto simp: askCompare_def js_sub_def positive_def level_price_def)
  next
    fix y assume "y \<in> set (sort_by askCompare xs)" "\<not> positive (askCompare x y)"
    then show "the (level_price x) \<le> the (level_price y)"
      using num[of y] x by (auto simp: askCompare_def js_sub_def positive_def level_price_def)
  qed auto
qed

lemma sort_by_keeps_clean:
  "list_all P (sort_by cmp xs) = list_all P xs"
  by (simp add: list_all_iff set_sort_by)

lemma updateBids_invariant:
  assumes "priced_changes (d_bids d)" and "book_invariant b"
  shows "\<exists>b'. updateBids d b = Done b' \<and> book_invariant b' \<and> lastUpdateId b' = lastUpdateId b"
proof (cases "d_bids d")
  case None
  then show ?thesis using assms(2) by (simp add: updateBids_def)
next
  case (Some cs)
  then have "list_all priced_change cs" using assms(1) by (simp add: priced_changes_def)
  then obtain side' where s: "forEach_changes cs (bids b) = Done side'" "distinct (map fst side')"
      "list_all (\<lambda>l. level_price l \<noteq> None) side'" "list_all (\<lambda>l. level_amount l \<noteq> Some 0) side'"
    using forEach_stays_clean[of cs "bids b"] assms(2)
    by (auto simp: book_invariant_def side_invariant_def)
  have "side_invariant (\<lambda>x y. y \<le> x) (sort_by bidCompare side')"
    using s sort_by_bids_sorted[of side']
    by (simp add: side_invariant_def distinct_sort_by sort_by_keeps_clean)
  then show ?thesis using Some s(1) assms(2) by (simp add: updateBids_def book_invariant_def)
qed

lemma updateAsks_invariant:
  assumes "priced_changes (d_asks d)" and "book_invariant b"
  shows "\<exists>b'. updateAsks d b = Done b' \<and> book_invariant b' \<and> lastUpdateId b' = lastUpdateId b"
proof (cases "d_asks d")
  case None
  then show ?thesis using assms(2) by (simp add: updateAsks_def)
next
  case (Some cs)
  then have "list_all priced_change cs" using assms(1) by (simp add: priced_changes_def)
  then obtain side' where s: "forEach_changes cs (asks b) = Done side'" "distinct (map fst side')"
      "list_all (\<lambda>l. level_price l \<noteq> None) side'" "list_all (\<lambda>l. level_amount l \<noteq> Some 0) side'"
    using forEach_stays_clean[of cs "asks b"] assms(2)
    by (auto simp: book_invariant_def side_invariant_def)
  have "side_invariant (\<lambda>x y. x \<le> y) (sort_by askCompare side')"
    using s sort_by_asks_sorted[of side']
    by (simp add: side_invariant_def distinct_sort_by sort_by_keeps_clean)
  then show ?thesis using Some s(1) assms(2) by (simp add: updateAsks_def book_invariant_def)
qed

lemma book_invariant_id: "book_invariant (b\<lparr>lastUpdateId := i\<rparr>) = book_invariant b"
  by (simp add: book_invariant_def)

lemma updateOrderbook_invariant:
  assumes "priced_changes (d_bids d)" and "priced_changes (d_asks d)" and "book_invariant b"
  shows "book_invariant (updateOrderbook d b)"
proof -
  obtain b1 where b1: "updateBids d b = Done b1" "book_invariant b1"
    using updateBids_invariant[OF assms(1,3)] by auto
  obtain b2 where b2: "updateAsks d b1 = Done b2" "book_invariant b2"
    using updateAsks_invariant[OF assms(2) b1(2)] by auto
  show ?thesis
    using b1 b2 assms(3) by (simp add: updateOrderbook_def applyDepthUpdate_def book_invariant_id)
qed

lemma book_step_invariant:
  "regular_event e \<Longrightarrow> book_invariant b \<Longrightarrow> book_invariant (book_step b e)"
  by (cases e) (simp_all add: updateOrderbook_invariant)

lemma foldl_book_step_invariant:
  "list_all regular_event es \<Longrightarrow> book_invariant b \<Longrightarrow> book_invariant (foldl book_step b es)"
  by (induction es arbitrary: b) (simp_all add: book_step_invariant)

lemma initial_invariant: "book_invariant initial_orderbook"
  by (simp add: book_invariant_def side_invariant_def initial_orderbook_def)

lemma run_events_invariant: "list_all regular_event es \<Longrightarrow> book_invariant (run_events es)"
  by (simp add: run_events_def foldl_book_step_invariant initial_invariant)

lemma side_invariant_explicit:
  assumes "side_invariant before side"
  shows "distinct (map fst side)" "list_all (\<lambda>l. level_price l \<noteq> None) side"
    "list_all (\<lambda>l. level_amount l \<noteq> Some 0) side"
    "sorted_wrt (\<lambda>a b. before (the (level_price a)) (the (level_price b))) side"
  using assms by (simp_all add: side_invariant_def)

lemma js_less_eq_the: "a \<noteq> None \<Longrightarrow> b \<noteq> None \<Longrightarrow> js_less_eq a b = (the a \<le> the b)"
  by (cases a; cases b) (simp_all add: js_less_eq_def)

lemma js_less_the: "a \<noteq> None \<Longrightarrow> b \<noteq> None \<Longrightarrow> js_less a b = (the a < the b)"
  by (cases a; cases b) (simp_all add: js_less_def)

lemma sorted_bids_js:
  assumes "list_all (\<lambda>l. level_price l \<noteq> None) side"
    and "sorted_wrt (\<lambda>a b. the (level_price b) \<le> the (level_price a)) side"
  shows "sorted_wrt (\<lambda>a b. js_less_eq (level_price b) (level_price a)) side"
  using assms(2)
proof (rule sorted_wrt_mono_rel[rotated])
  fix x y assume "x \<in> set side" "y \<in> set side" "the (level_price y) \<le> the (level_price x)"
  then show "js_less_eq (level_price y) (level_price x)"
    using assms(1) by (simp add: list_all_iff js_less_eq_the del: not_None_eq)
qed

lemma sorted_asks_js:
  assumes "list_all (\<lambda>l. level_price l \<noteq> None) side"
    and "sorted_wrt (\<lambda>a b. the (level_price a) \<le> the (level_price b)) side"
  shows "sorted_wrt (\<lambda>a b. js_less_eq (level_price a) (level_price b)) side"
  using assms(2)
proof (rule sorted_wrt_mono_rel[rotated])
  fix x y assume "x \<in> set side" "y \<in> set side" "the (level_price x) \<le> the (level_price y)"
  then show "js_less_eq (level_price x) (level_price y)"
    using assms(1) by (simp add: list_all_iff js_less_eq_the del: not_None_eq)
qed

text \<open>
  Claim C2 does not hold as stated. The snapshot and the message below are as the
  component expects them (sorted sides, numeric prices, pairs of strings), and
  the book they lead to has two bids at the price 1.5, written \<^verbatim>\<open>1.5\<close> and
  \<^verbatim>\<open>1.50\<close>, and an ask with the quantity -1: the bid side is not strictly
  decreasing and a stored quantity is not above zero.
\<close>

theorem equal_prices_and_negative_quantities_are_stored:
  "list_all regular_event
     [SnapshotLoaded \<lparr>bids = [(''1.5'', ''1'')], asks = [(''2'', ''1'')], lastUpdateId = Some 1\<rparr>,
      DepthMessage \<lparr>d_lastUpdateId = Some 2, d_bids = Some [Change ''1.50'' ''2''],
                    d_asks = Some [Change ''2'' ''-1''], d_firstId = Some 2, d_prevFinalId = None\<rparr>] \<and>
   run_events
     [SnapshotLoaded \<lparr>bids = [(''1.5'', ''1'')], asks = [(''2'', ''1'')], lastUpdateId = Some 1\<rparr>,
      DepthMessage \<lparr>d_lastUpdateId = Some 2, d_bids = Some [Change ''1.50'' ''2''],
                    d_asks = Some [Change ''2'' ''-1''], d_firstId = Some 2, d_prevFinalId = None\<rparr>]
   = \<lparr>bids = [(''1.5'', ''1''), (''1.50'', ''2'')], asks = [(''2'', ''-1'')], lastUpdateId = Some 2\<rparr> \<and>
   level_price (''1.5'', ''1'') = Some (3 / 2) \<and> level_price (''1.50'', ''2'') = Some (3 / 2) \<and>
   level_amount (''2'', ''-1'') = Some (- 1) \<and>
   \<not> spec_book_invariant (run_events
     [SnapshotLoaded \<lparr>bids = [(''1.5'', ''1'')], asks = [(''2'', ''1'')], lastUpdateId = Some 1\<rparr>,
      DepthMessage \<lparr>d_lastUpdateId = Some 2, d_bids = Some [Change ''1.50'' ''2''],
                    d_asks = Some [Change ''2'' ''-1''], d_firstId = Some 2, d_prevFinalId = None\<rparr>])"
  by (simp add: run_events_def book_eval book_invariant_def side_invariant_def level_price_def
        level_amount_def priced_changes_def spec_book_invariant_def js_less_def del: not_None_eq)

text \<open>
  Claim C2, amended: in every state produced from the initial empty book by
  snapshots that satisfy the invariant themselves and by messages whose elements
  are pairs with numeric prices, no side holds a price string twice, every price
  is a number, the bids are in non-increasing and the asks in non-decreasing
  order of price (levels whose price strings differ may have equal prices), and
  no stored quantity reads as zero (a negative or non-numeric one may be stored).
\<close>

theorem reachable_book_invariant:
  assumes "list_all regular_event es"
  shows "distinct (map fst (bids (run_events es))) \<and>
         distinct (map fst (asks (run_events es))) \<and>
         list_all (\<lambda>l. level_price l \<noteq> None) (bids (run_events es)) \<and>
         list_all (\<lambda>l. level_price l \<noteq> None) (asks (run_events es)) \<and>
         sorted_wrt (\<lambda>a b. js_less_eq (level_price b) (level_price a)) (bids (run_events es)) \<and>
         sorted_wrt (\<lambda>a b. js_less_eq (level_price a) (level_price b)) (asks (run_events es)) \<and>
         list_all (\<lambda>l. level_amount l \<noteq> Some 0) (bids (run_events es)) \<and>
         list_all (\<lambda>l. level_amount l \<noteq> Some 0) (asks (run_events es))"
proof -
  have "book_invariant (run_events es)" using assms by (rule run_events_invariant)
  then have b: "side_invariant (\<lambda>x y. y \<le> x) (bids (run_events es))"
    and a: "side_invariant (\<lambda>x y. x \<le> y) (asks (run_events es))"
    by (simp_all add: book_invariant_def)
  show ?thesis
    using side_invariant_explicit[OF b] side_invariant_explicit[OF a]
      sorted_bids_js[of "bids (run_events es)"] sorted_asks_js[of "asks (run_events es)"]
    by simp
qed

text \<open>The amended claim on the events of the counterexample.\<close>

theorem reachable_book_invariant_witness:
  "list_all regular_event
     [SnapshotLoaded \<lparr>bids = [(''1.5'', ''1'')], asks = [(''2'', ''1'')], lastUpdateId = Some 1\<rparr>,
      DepthMessage \<lparr>d_lastUpdateId = Some 2, d_bids = Some [Change ''1.50'' ''2''],
                    d_asks = Some [Change ''2'' ''-1''], d_firstId = Some 2, d_prevFinalId = None\<rparr>] \<and>
   distinct (map fst (bids (run_events
     [SnapshotLoaded \<lparr>bids = [(''1.5'', ''1'')], asks = [(''2'', ''1'')], lastUpdateId = Some 1\<rparr>,
      DepthMessage \<lparr>d_lastUpdateId = Some 2, d_bids = Some [Change ''1.50'' ''2''],
                    d_asks = Some [Change ''2'' ''-1''], d_firstId = Some 2, d_prevFinalId = None\<rparr>]))) \<and>
   sorted_wrt (\<lambda>a b. js_less_eq (level_price b) (level_price a)) (bids (run_events
     [SnapshotLoaded \<lparr>bids = [(''1.5'', ''1'')], asks = [(''2'', ''1'')], lastUpdateId = Some 1\<rparr>,
      DepthMessage \<lparr>d_lastUpdateId = Some 2, d_bids = Some [Change ''1.50'' ''2''],
                    d_asks = Some [Change ''2'' ''-1''], d_firstId = Some 2, d_prevFinalId = None\<rparr>])) \<and>
   list_all (\<lambda>l. level_amount l \<noteq> Some 0) (asks (run_events
     [SnapshotLoaded \<lparr>bids = [(''1.5'', ''1'')], asks = [(''2'', ''1'')], lastUpdateId = Some 1\<rparr>,
      DepthMessage \<lparr>d_lastUpdateId = Some 2, d_bids = Some [Change ''1.50'' ''2''],
                    d_asks = Some [Change ''2'' ''-1''], d_firstId = Some 2, d_prevFinalId = None\<rparr>]))"
proof -
  have r: "list_all regular_event
     [SnapshotLoaded \<lparr>bids = [(''1.5'', ''1'')], asks = [(''2'', ''1'')], lastUpdateId = Some 1\<rparr>,
      DepthMessage \<lparr>d_lastUpdateId = Some 2, d_bids = Some [Change ''1.50'' ''2''],
                    d_asks = Some [Change ''2'' ''-1''], d_firstId = Some 2, d_prevFinalId = None\<rparr>]"
    by (simp add: book_invariant_def side_invariant_def level_price_def level_amount_def
          priced_changes_def parseFloat_examples del: not_None_eq)
  show ?thesis
    using reachable_book_invariant[OF r] r by simp
qed

section \<open>Evaluating the display on concrete inputs\<close>

lemma Decimal_examples:
  "Decimal ''100.001'' = Some (100001 / 1000)" "Decimal ''100.004'' = Some (100004 / 1000)"
  "Decimal ''100.006'' = Some (100006 / 1000)"
  "Decimal ''100'' = Some 100" "Decimal ''101'' = Some 101" "Decimal ''102'' = Some 102"
  "Decimal ''abc'' = None"
  by (simp_all add: parse_defs)

lemma parseFloat_more:
  "parseFloat ''0.5'' = Some (1 / 2)" "parseFloat ''0.3'' = Some (3 / 10)"
  "parseFloat ''4'' = Some 4" "parseFloat ''3'' = Some 3"
  by (simp_all add: parse_defs)

lemma floor_rat_numeral: "\<lfloor>(numeral a :: rat) / numeral b\<rfloor> = numeral a div numeral b"
  using floor_divide_of_int_eq[of "numeral a" "numeral b", where ?'a = rat] by simp

lemmas group_eval = groupByPrecision_def toFixed_def key_value_def or0_def js_add_def
  Decimal_examples parseFloat_examples parseFloat_more Let_def floor_rat_numeral

lemmas depth_eval = calculateDepth_def js_add_def js_mul_def js_div_def js_max_def

section \<open>The best prices\<close>

text \<open>
  Claim C5 does not hold as stated: nothing in the component compares the two
  sides. After a snapshot with the bid 100 and the ask 101, a message with the bid
  102 is applied, and the consumer is shown the best bid 102 above the best ask
  101, a spread of -1.
\<close>

theorem crossed_book_is_displayed:
  "list_all regular_event
     [SnapshotLoaded \<lparr>bids = [(''100'', ''1'')], asks = [(''101'', ''1'')], lastUpdateId = Some 5\<rparr>,
      DepthMessage \<lparr>d_lastUpdateId = Some 6, d_bids = Some [Change ''102'' ''1''],
                    d_asks = Some [], d_firstId = Some 6, d_prevFinalId = None\<rparr>] \<and>
   run_events
     [SnapshotLoaded \<lparr>bids = [(''100'', ''1'')], asks = [(''101'', ''1'')], lastUpdateId = Some 5\<rparr>,
      DepthMessage \<lparr>d_lastUpdateId = Some 6, d_bids = Some [Change ''102'' ''1''],
                    d_asks = Some [], d_firstId = Some 6, d_prevFinalId = None\<rparr>]
   = \<lparr>bids = [(''102'', ''1''), (''100'', ''1'')], asks = [(''101'', ''1'')], lastUpdateId = Some 6\<rparr> \<and>
   level_price (''102'', ''1'') = Some 102 \<and> level_price (''101'', ''1'') = Some 101 \<and>
   map_option bestBid (processedOrderbook
     \<lparr>bids = [(''102'', ''1''), (''100'', ''1'')], asks = [(''101'', ''1'')], lastUpdateId = Some 6\<rparr> 2 20)
   = Some 102 \<and>
   map_option bestAsk (processedOrderbook
     \<lparr>bids = [(''102'', ''1''), (''100'', ''1'')], asks = [(''101'', ''1'')], lastUpdateId = Some 6\<rparr> 2 20)
   = Some 101 \<and>
   map_option spread (processedOrderbook
     \<lparr>bids = [(''102'', ''1''), (''100'', ''1'')], asks = [(''101'', ''1'')], lastUpdateId = Some 6\<rparr> 2 20)
   = Some (- 1)"
  by (simp add: run_events_def book_eval book_invariant_def side_invariant_def level_price_def
        level_amount_def priced_changes_def processedOrderbook_def group_eval depth_eval
        bestBid_def bestAsk_def spread_def displayBids_def displayAsks_def del: not_None_eq)

text \<open>
  Claim C5, amended: in every state reached by regular events in which both sides
  are non-empty, the first bid is the highest bid and the first ask is the lowest
  ask; the best bid is below the best ask exactly when every stored bid is below
  every stored ask, which the component leaves to the feed.
\<close>

theorem best_prices_of_reachable_book:
  assumes "list_all regular_event es"
    and "bids (run_events es) = bb # bs" and "asks (run_events es) = ba # ks"
  shows "(\<forall>l \<in> set (bids (run_events es)). js_less_eq (level_price l) (level_price bb)) \<and>
         (\<forall>l \<in> set (asks (run_events es)). js_less_eq (level_price ba) (level_price l)) \<and>
         (js_less (level_price bb) (level_price ba) \<longleftrightarrow>
            (\<forall>x \<in> set (bids (run_events es)). \<forall>y \<in> set (asks (run_events es)).
                js_less (level_price x) (level_price y)))"
proof -
  have "book_invariant (run_events es)" using assms(1) by (rule run_events_invariant)
  then have b: "side_invariant (\<lambda>x y. y \<le> x) (bb # bs)"
    and a: "side_invariant (\<lambda>x y. x \<le> y) (ba # ks)"
    using assms(2,3) by (simp_all add: book_invariant_def)
  have nb: "\<And>l. l \<in> set (bb # bs) \<Longrightarrow> level_price l \<noteq> None"
    using side_invariant_explicit(2)[OF b] by (auto simp: list_all_iff simp del: not_None_eq)
  have na: "\<And>l. l \<in> set (ba # ks) \<Longrightarrow> level_price l \<noteq> None"
    using side_invariant_explicit(2)[OF a] by (auto simp: list_all_iff simp del: not_None_eq)
  have hb: "\<And>l. l \<in> set (bb # bs) \<Longrightarrow> the (level_price l) \<le> the (level_price bb)"
    using side_invariant_explicit(4)[OF b] by auto
  have ha: "\<And>l. l \<in> set (ba # ks) \<Longrightarrow> the (level_price ba) \<le> the (level_price l)"
    using side_invariant_explicit(4)[OF a] by auto
  have 1: "\<forall>l \<in> set (bb # bs). js_less_eq (level_price l) (level_price bb)"
  proof
    fix l assume l: "l \<in> set (bb # bs)"
    show "js_less_eq (level_price l) (level_price bb)"
      using nb[OF l] nb[of bb] hb[OF l] by (simp add: js_less_eq_the del: not_None_eq)
  qed
  have 2: "\<forall>l \<in> set (ba # ks). js_less_eq (level_price ba) (level_price l)"
  proof
    fix l assume l: "l \<in> set (ba # ks)"
    show "js_less_eq (level_price ba) (level_price l)"
      using na[OF l] na[of ba] ha[OF l] by (simp add: js_less_eq_the del: not_None_eq)
  qed
  have 3: "js_less (level_price bb) (level_price ba) \<longleftrightarrow>
            (\<forall>x \<in> set (bb # bs). \<forall>y \<in> set (ba # ks). js_less (level_price x) (level_price y))"
  proof
    assume c: "js_less (level_price bb) (level_price ba)"
    show "\<forall>x \<in> set (bb # bs). \<forall>y \<in> set (ba # ks). js_less (level_price x) (level_price y)"
    proof (intro ballI)
      fix x y assume x: "x \<in> set (bb # bs)" and y: "y \<in> set (ba # ks)"
      have "the (level_price x) \<le> the (level_price bb)" using hb[OF x] .
      moreover have "the (level_price bb) < the (level_price ba)"
        using c nb[of bb] na[of ba] by (simp add: js_less_the del: not_None_eq)
      moreover have "the (level_price ba) \<le> the (level_price y)" using ha[OF y] .
      ultimately have "the (level_price x) < the (level_price y)" by simp
      then show "js_less (level_price x) (level_price y)"
        using nb[OF x] na[OF y] by (simp add: js_less_the del: not_None_eq)
    qed
  next
    assume "\<forall>x \<in> set (bb # bs). \<forall>y \<in> set (ba # ks). js_less (level_price x) (level_price y)"
    then show "js_less (level_price bb) (level_price ba)" by simp
  qed
  show ?thesis using 1 2 3 assms(2,3) by simp
qed

text \<open>The amended claim on a book that is not crossed.\<close>

theorem best_prices_of_reachable_book_witness:
  "list_all regular_event
     [SnapshotLoaded \<lparr>bids = [(''100'', ''1'')], asks = [(''101'', ''1'')], lastUpdateId = Some 5\<rparr>,
      DepthMessage \<lparr>d_lastUpdateId = Some 6, d_bids = Some [Change ''99'' ''2''],
                    d_asks = Some [], d_firstId = Some 6, d_prevFinalId = None\<rparr>] \<and>
   run_events
     [SnapshotLoaded \<lparr>bids = [(''100'', ''1'')], asks = [(''101'', ''1'')], lastUpdateId = Some 5\<rparr>,
      DepthMessage \<lparr>d_lastUpdateId = Some 6, d_bids = Some [Change ''99'' ''2''],
                    d_asks = Some [], d_firstId = Some 6, d_prevFinalId = None\<rparr>]
   = \<lparr>bids = [(''100'', ''1''), (''99'', ''2'')], asks = [(''101'', ''1'')], lastUpdateId = Some 6\<rparr> \<and>
   js_less_eq (level_price (''99'', ''2'')) (level_price (''100'', ''1'')) \<and>
   js_less (level_price (''100'', ''1'')) (level_price (''101'', ''1'')) \<and>
   js_less (level_price (''99'', ''2'')) (level_price (''101'', ''1''))"
proof -
  have p: "parseFloat ''99'' = Some 99" by (simp add: parse_defs)
  have r: "list_all regular_event
     [SnapshotLoaded \<lparr>bids = [(''100'', ''1'')], asks = [(''101'', ''1'')], lastUpdateId = Some 5\<rparr>,
      DepthMessage \<lparr>d_lastUpdateId = Some 6, d_bids = Some [Change ''99'' ''2''],
                    d_asks = Some [], d_firstId = Some 6, d_prevFinalId = None\<rparr>]"
    by (simp add: book_invariant_def side_invariant_def level_price_def level_amount_def
          priced_changes_def parseFloat_examples p del: not_None_eq)
  have e: "run_events
     [SnapshotLoaded \<lparr>bids = [(''100'', ''1'')], asks = [(''101'', ''1'')], lastUpdateId = Some 5\<rparr>,
      DepthMessage \<lparr>d_lastUpdateId = Some 6, d_bids = Some [Change ''99'' ''2''],
                    d_asks = Some [], d_firstId = Some 6, d_prevFinalId = None\<rparr>]
   = \<lparr>bids = [(''100'', ''1''), (''99'', ''2'')], asks = [(''101'', ''1'')], lastUpdateId = Some 6\<rparr>"
    by (simp add: run_events_def book_eval p)
  show ?thesis
    using best_prices_of_reachable_book[OF r, of "(''100'', ''1'')" "[(''99'', ''2'')]" "(''101'', ''1'')" "[]"]
      r e
    by (simp add: level_price_def js_less_def js_less_eq_def parseFloat_examples p)
qed

section \<open>Grouping by precision: the keys and the sums\<close>

lemma map_of_map_set: "map_of (map_set k v m) = (map_of m)(k \<mapsto> v)"
  by (induction m) (auto simp: fun_eq_iff)

lemma keys_map_set:
  "map fst (map_set k v m) = (if k \<in> fst ` set m then map fst m else map fst m @ [k])"
  by (induction m) auto

lemma set_first_occurrences: "set (first_occurrences xs) = set xs"
  by (induction xs) auto

lemma distinct_first_occurrences: "distinct (first_occurrences xs)"
  by (induction xs) (auto simp: set_first_occurrences)

lemma first_occurrences_snoc:
  "first_occurrences (xs @ [k]) =
     (if k \<in> set xs then first_occurrences xs else first_occurrences xs @ [k])"
  by (induction xs) auto

lemma first_occurrences_map:
  "inj_on f (set xs) \<Longrightarrow> first_occurrences (map f xs) = map f (first_occurrences xs)"
proof (induction xs)
  case Nil
  then show ?case by simp
next
  case (Cons x xs)
  have "filter (\<lambda>y. y \<noteq> f x) (map f (first_occurrences xs))
        = map f (filter (\<lambda>y. y \<noteq> x) (first_occurrences xs))"
    using Cons.prems by (auto simp: filter_map comp_def set_first_occurrences inj_on_def intro!: filter_cong arg_cong[where f="map f"])
  then show ?case using Cons by simp
qed

lemma first_occurrences_sorted:
  fixes xs :: "rat list"
  shows "sorted_wrt (\<lambda>a b. b \<le> a) xs \<Longrightarrow> sorted_wrt (\<lambda>a b. b < a) (first_occurrences xs)"
  by (induction xs) (auto simp: sorted_wrt_filter set_first_occurrences)

lemma first_occurrences_sorted_up:
  fixes xs :: "rat list"
  shows "sorted_wrt (\<lambda>a b. a \<le> b) xs \<Longrightarrow> sorted_wrt (\<lambda>a b. a < b) (first_occurrences xs)"
  by (induction xs) (auto simp: sorted_wrt_filter set_first_occurrences)

lemma group_levels_snoc:
  "group_levels (orders @ [l]) p acc =
     (case group_levels orders p acc of None \<Rightarrow> None | Some g \<Rightarrow> group_levels [l] p g)"
  by (induction orders arbitrary: acc) (simp_all add: Let_def split: option.splits)

lemma decimal_side_snoc:
  "decimal_side (orders @ [l]) =
     (decimal_side orders \<and> (\<exists>x a. Decimal (fst l) = Some x \<and> 0 \<le> x \<and> parseFloat (snd l) = Some a))"
  by (auto simp: decimal_side_def split: option.splits)

lemma decimal_side_level:
  "decimal_side orders \<Longrightarrow> l \<in> set orders \<Longrightarrow>
     Decimal (fst l) = Some (decimal_price l) \<and> 0 \<le> decimal_price l \<and>
     parseFloat (snd l) = Some (numeric_amount l)"
  by (auto simp: decimal_side_def list_all_iff decimal_price_def numeric_amount_def split: option.splits)

lemma group_levels_result:
  assumes "decimal_side orders"
  shows "\<exists>g. group_levels orders p [] = Some g \<and>
           map fst g = first_occurrences (map (\<lambda>l. toFixed (decimal_price l) p) orders) \<and>
           (\<forall>k. map_of g k =
                (if k \<in> (\<lambda>l. toFixed (decimal_price l) p) ` set orders
                 then Some (Some (sum_list (map numeric_amount
                        (filter (\<lambda>l. toFixed (decimal_price l) p = k) orders))))
                 else None))"
  using assms
proof (induction orders rule: rev_induct)
  case Nil
  then show ?case by simp
next
  case (snoc l orders)
  from snoc.prems obtain x a where ds: "decimal_side orders"
    and x: "Decimal (fst l) = Some x" and a: "parseFloat (snd l) = Some a"
    by (auto simp: decimal_side_snoc)
  have dp: "decimal_price l = x" and na: "numeric_amount l = a"
    using x a by (simp_all add: decimal_price_def numeric_amount_def)
  from snoc.IH[OF ds] obtain g where g: "group_levels orders p [] = Some g"
    and keys: "map fst g = first_occurrences (map (\<lambda>l. toFixed (decimal_price l) p) orders)"
    and vals: "\<And>k. map_of g k =
                (if k \<in> (\<lambda>l. toFixed (decimal_price l) p) ` set orders
                 then Some (Some (sum_list (map numeric_amount
                        (filter (\<lambda>l. toFixed (decimal_price l) p = k) orders))))
                 else None)"
    by auto
  let ?k = "toFixed x p"
  let ?v = "js_add (or0 (map_of g ?k)) (Some a)"
  let ?g' = "map_set ?k ?v g"
  have res: "group_levels (orders @ [l]) p [] = Some ?g'"
    using g x a by (simp add: group_levels_snoc Let_def)
  have mem: "(?k \<in> fst ` set g) = (?k \<in> (\<lambda>l. toFixed (decimal_price l) p) ` set orders)"
  proof -
    have "fst ` set g = set (map fst g)" by simp
    also have "\<dots> = (\<lambda>l. toFixed (decimal_price l) p) ` set orders"
      by (simp only: keys set_first_occurrences set_map)
    finally show ?thesis by simp
  qed
  have k': "map fst ?g' = first_occurrences (map (\<lambda>l. toFixed (decimal_price l) p) (orders @ [l]))"
    using mem keys by (simp add: keys_map_set first_occurrences_snoc dp)
  have v: "?v = Some (sum_list (map numeric_amount
                        (filter (\<lambda>l. toFixed (decimal_price l) p = ?k) (orders @ [l]))))"
  proof (cases "?k \<in> (\<lambda>l. toFixed (decimal_price l) p) ` set orders")
    case True
    then show ?thesis using vals[of ?k] by (simp add: or0_def js_add_def dp na)
  next
    case False
    then have "\<forall>l \<in> set orders. toFixed (decimal_price l) p \<noteq> ?k"
      by (metis imageI)
    then have "filter (\<lambda>l. toFixed (decimal_price l) p = ?k) orders = []"
      by (simp add: filter_empty_conv)
    then show ?thesis using vals[of ?k] False by (simp add: or0_def js_add_def dp na)
  qed
  have v': "map_of ?g' k =
                (if k \<in> (\<lambda>l. toFixed (decimal_price l) p) ` set (orders @ [l])
                 then Some (Some (sum_list (map numeric_amount
                        (filter (\<lambda>l. toFixed (decimal_price l) p = k) (orders @ [l])))))
                 else None)" for k
  proof (cases "k = ?k")
    case True
    then show ?thesis using v by (simp add: map_of_map_set dp)
  next
    case False
    then show ?thesis using vals[of k] by (auto simp: map_of_map_set dp)
  qed
  show ?case using res k' v' by blast
qed

lemma toFixed_nonneg: "0 \<le> x \<Longrightarrow> toFixed x p = (False, nat \<lfloor>x * 10 ^ p + 1 / 2\<rfloor>)"
  by (simp add: toFixed_def)

lemma round_half_up_nonneg:
  "0 \<le> x \<Longrightarrow> round_half_up x p = of_int \<lfloor>x * 10 ^ p + 1 / 2\<rfloor> / 10 ^ p"
proof -
  assume x: "0 \<le> x"
  then have "0 \<le> x * 10 ^ p + 1 / 2" by simp
  then have "0 \<le> \<lfloor>x * 10 ^ p + 1 / 2\<rfloor>" by simp
  then show ?thesis
    using x by (simp add: round_half_up_def key_value_def toFixed_nonneg)
qed

lemma round_half_up_eq_iff:
  assumes "0 \<le> x" and "0 \<le> y"
  shows "(round_half_up x p = round_half_up y p) = (toFixed x p = toFixed y p)"
proof -
  have h: "0 \<le> \<lfloor>x * 10 ^ p + 1 / 2\<rfloor>" "0 \<le> \<lfloor>y * 10 ^ p + 1 / 2\<rfloor>"
    using assms by simp_all
  show ?thesis
    using assms eq_nat_nat_iff[OF h] by (simp add: round_half_up_nonneg toFixed_nonneg)
qed

lemma round_half_up_mono:
  assumes "0 \<le> x" and "x \<le> y"
  shows "round_half_up x p \<le> round_half_up y p"
proof -
  have "x * 10 ^ p + 1 / 2 \<le> y * 10 ^ p + 1 / 2" using assms by simp
  then have "\<lfloor>x * 10 ^ p + 1 / 2\<rfloor> \<le> \<lfloor>y * 10 ^ p + 1 / 2\<rfloor>" by (rule floor_mono)
  then show ?thesis
    using assms by (simp add: round_half_up_nonneg divide_right_mono)
qed

lemma round_half_up_nearest:
  assumes "0 \<le> x"
  shows "x * 10 ^ p - 1 / 2 < round_half_up x p * 10 ^ p \<and>
         round_half_up x p * 10 ^ p \<le> x * 10 ^ p + 1 / 2 \<and>
         round_half_up x p * 10 ^ p \<in> \<int>"
proof -
  have r: "round_half_up x p * 10 ^ p = of_int \<lfloor>x * 10 ^ p + 1 / 2\<rfloor>"
    using assms by (simp add: round_half_up_nonneg)
  have "x * 10 ^ p + 1 / 2 < of_int \<lfloor>x * 10 ^ p + 1 / 2\<rfloor> + 1" by linarith
  moreover have "of_int \<lfloor>x * 10 ^ p + 1 / 2\<rfloor> \<le> x * 10 ^ p + 1 / 2" by linarith
  ultimately show ?thesis unfolding r by auto
qed

lemma Decimal_parseFloat: "Decimal s = Some v \<Longrightarrow> parseFloat s = Some v"
proof -
  assume d: "Decimal s = Some v"
  have "dropWhile is_space s = s"
  proof (cases s)
    case Nil
    then show ?thesis by simp
  next
    case (Cons c r)
    have "\<not> is_space c"
    proof
      assume sp: "is_space c"
      then have "c \<noteq> CHR ''-''" "c \<noteq> CHR ''+''" "c \<noteq> CHR ''.''" "\<not> is_digit c"
        by (auto simp: is_space_def is_digit_def)
      then have "scan_decimal s = None"
        using Cons by (simp add: scan_decimal_def scan_sign_def)
      then show False using d by (simp add: Decimal_def)
    qed
    then show ?thesis using Cons by simp
  qed
  then show ?thesis
    using d by (auto simp: Decimal_def parseFloat_def split: option.splits prod.splits list.splits)
qed

lemma grouped_prices:
  assumes ds: "decimal_side orders"
    and keys: "map fst g = first_occurrences (map (\<lambda>l. toFixed (decimal_price l) p) orders)"
  shows "map (\<lambda>e. key_value (fst e) p) g
         = first_occurrences (map (\<lambda>l. round_half_up (decimal_price l) p) orders)"
proof -
  have inj: "inj_on (\<lambda>k. key_value k p) (set (map (\<lambda>l. toFixed (decimal_price l) p) orders))"
  proof (rule inj_onI)
    fix k k'
    assume "k \<in> set (map (\<lambda>l. toFixed (decimal_price l) p) orders)"
      and "k' \<in> set (map (\<lambda>l. toFixed (decimal_price l) p) orders)"
      and e: "key_value k p = key_value k' p"
    then obtain l l' where l: "l \<in> set orders" "k = toFixed (decimal_price l) p"
      and l': "l' \<in> set orders" "k' = toFixed (decimal_price l') p"
      by auto
    have "round_half_up (decimal_price l) p = round_half_up (decimal_price l') p"
      using e l(2) l'(2) by (simp add: round_half_up_def)
    then show "k = k'"
      using round_half_up_eq_iff[of "decimal_price l" "decimal_price l'" p]
        decimal_side_level[OF ds l(1)] decimal_side_level[OF ds l'(1)] l(2) l'(2)
      by simp
  qed
  have "map (\<lambda>e. key_value (fst e) p) g = map (\<lambda>k. key_value k p) (map fst g)"
    by simp
  also have "\<dots> = first_occurrences (map (\<lambda>k. key_value k p) (map (\<lambda>l. toFixed (decimal_price l) p) orders))"
    unfolding keys using first_occurrences_map[OF inj] by simp
  also have "\<dots> = first_occurrences (map (\<lambda>l. round_half_up (decimal_price l) p) orders)"
    by (simp add: round_half_up_def comp_def)
  finally show ?thesis .
qed

lemma grouped_amounts:
  assumes ds: "decimal_side orders"
    and keys: "map fst g = first_occurrences (map (\<lambda>l. toFixed (decimal_price l) p) orders)"
    and vals: "\<And>k. map_of g k =
                (if k \<in> (\<lambda>l. toFixed (decimal_price l) p) ` set orders
                 then Some (Some (sum_list (map numeric_amount
                        (filter (\<lambda>l. toFixed (decimal_price l) p = k) orders))))
                 else None)"
    and e: "e \<in> set g"
  shows "snd e = Some (sum_list (map numeric_amount
            (filter (\<lambda>l. round_half_up (decimal_price l) p = key_value (fst e) p) orders)))"
proof -
  have d: "distinct (map fst g)" by (simp add: keys distinct_first_occurrences)
  have m: "map_of g (fst e) = Some (snd e)"
    using d e by (cases e) simp
  have "fst e \<in> set (map fst g)" using e by simp
  then have "fst e \<in> (\<lambda>l. toFixed (decimal_price l) p) ` set orders"
    by (simp only: keys set_first_occurrences set_map)
  then obtain l0 where l0: "l0 \<in> set orders" "fst e = toFixed (decimal_price l0) p" by auto
  have s: "snd e = Some (sum_list (map numeric_amount
                        (filter (\<lambda>l. toFixed (decimal_price l) p = fst e) orders)))"
    using vals[of "fst e"] m l0 by auto
  have "filter (\<lambda>l. toFixed (decimal_price l) p = fst e) orders
        = filter (\<lambda>l. round_half_up (decimal_price l) p = key_value (fst e) p) orders"
  proof (rule filter_cong[OF refl])
    fix l assume l: "l \<in> set orders"
    have "key_value (fst e) p = round_half_up (decimal_price l0) p"
      by (simp add: l0(2) round_half_up_def)
    then show "(toFixed (decimal_price l) p = fst e)
               = (round_half_up (decimal_price l) p = key_value (fst e) p)"
      using round_half_up_eq_iff[of "decimal_price l" "decimal_price l0" p]
        decimal_side_level[OF ds l] decimal_side_level[OF ds l0(1)] l0(2)
      by simp
  qed
  then show ?thesis using s by simp
qed

lemma rounded_sorted_down:
  assumes ds: "decimal_side orders"
    and "sorted_wrt (\<lambda>a b. decimal_price b \<le> decimal_price a) orders"
  shows "sorted_wrt (\<lambda>a b. b \<le> a) (map (\<lambda>l. round_half_up (decimal_price l) p) orders)"
  unfolding sorted_wrt_map using assms(2)
proof (rule sorted_wrt_mono_rel[rotated])
  fix x y assume "x \<in> set orders" "y \<in> set orders" "decimal_price y \<le> decimal_price x"
  then show "round_half_up (decimal_price y) p \<le> round_half_up (decimal_price x) p"
    using decimal_side_level[OF ds, of y] by (simp add: round_half_up_mono)
qed

lemma rounded_sorted_up:
  assumes ds: "decimal_side orders"
    and "sorted_wrt (\<lambda>a b. decimal_price a \<le> decimal_price b) orders"
  shows "sorted_wrt (\<lambda>a b. a \<le> b) (map (\<lambda>l. round_half_up (decimal_price l) p) orders)"
  unfolding sorted_wrt_map using assms(2)
proof (rule sorted_wrt_mono_rel[rotated])
  fix x y assume "x \<in> set orders" "y \<in> set orders" "decimal_price x \<le> decimal_price y"
  then show "round_half_up (decimal_price x) p \<le> round_half_up (decimal_price y) p"
    using decimal_side_level[OF ds, of x] by (simp add: round_half_up_mono)
qed

lemma floor_rat_minus_numeral:
  "\<lfloor>- ((numeral a :: rat) / numeral b)\<rfloor> = - numeral a div numeral b"
  using floor_divide_of_int_eq[of "- numeral a" "numeral b", where ?'a = rat] by simp

text \<open>
  Claim C6 does not hold as stated: \<^verbatim>\<open>groupByPrecision\<close> is not told the side and
  rounds every price to the nearest. The bid 100.006 is shown at 100.01 at
  precision 2, above its price, where rounding down gives 100.00; the ask 100.004
  is shown at 100.00, below its price, where rounding up gives 100.01.
\<close>

theorem rounding_ignores_the_side:
  "groupByPrecision [(''100.006'', ''1'')] 2 = Some [\<lparr>price = 10001 / 100, amount = Some 1\<rparr>] \<and>
   spec_round_down (100006 / 1000) 2 = 100 \<and>
   groupByPrecision [(''100.004'', ''1'')] 2 = Some [\<lparr>price = 100, amount = Some 1\<rparr>] \<and>
   spec_round_up (100004 / 1000) 2 = 10001 / 100"
  by (simp add: group_eval spec_round_down_def spec_round_up_def ceiling_def floor_rat_minus_numeral)

text \<open>
  Claim C6, amended: for every side whose prices are non-negative decimal literals
  and whose quantities are numbers, and every precision \<open>p\<close>, the output has one
  entry for each rounded price, in the order in which the rounded prices first
  occur in the input; every price is rounded to the nearest multiple of
  \<open>10 ^ - p\<close>, halves upwards, on both sides; the quantity of an entry is the sum
  of the quantities of the raw levels that round to its price; no two entries
  share a price; and a side sorted by price, downwards or upwards, gives an
  output strictly sorted the same way. The raw levels 100.001 with 0.5 and 100.004
  with 0.3 collapse at precision 2 to the level 100.00 with 0.8.
\<close>

theorem grouping_rounds_half_up:
  assumes ds: "decimal_side orders"
  shows "\<exists>out. groupByPrecision orders p = Some out \<and>
     map price out = first_occurrences (map (\<lambda>l. round_half_up (decimal_price l) p) orders) \<and>
     distinct (map price out) \<and>
     (\<forall>g \<in> set out. amount g = Some (sum_list (map numeric_amount
          (filter (\<lambda>l. round_half_up (decimal_price l) p = price g) orders)))) \<and>
     (\<forall>l \<in> set orders.
          decimal_price l * 10 ^ p - 1 / 2 < round_half_up (decimal_price l) p * 10 ^ p \<and>
          round_half_up (decimal_price l) p * 10 ^ p \<le> decimal_price l * 10 ^ p + 1 / 2 \<and>
          round_half_up (decimal_price l) p * 10 ^ p \<in> \<int>) \<and>
     (\<forall>l \<in> set orders. level_price l = Some (decimal_price l)) \<and>
     (sorted_wrt (\<lambda>a b. decimal_price b \<le> decimal_price a) orders
        \<longrightarrow> sorted_wrt (\<lambda>a b. price b < price a) out) \<and>
     (sorted_wrt (\<lambda>a b. decimal_price a \<le> decimal_price b) orders
        \<longrightarrow> sorted_wrt (\<lambda>a b. price a < price b) out) \<and>
     groupByPrecision [(''100.001'', ''0.5''), (''100.004'', ''0.3'')] 2
       = Some [\<lparr>price = 100, amount = Some (4 / 5)\<rparr>]"
proof -
  obtain g where g: "group_levels orders p [] = Some g"
    and keys: "map fst g = first_occurrences (map (\<lambda>l. toFixed (decimal_price l) p) orders)"
    and vals: "\<And>k. map_of g k =
                (if k \<in> (\<lambda>l. toFixed (decimal_price l) p) ` set orders
                 then Some (Some (sum_list (map numeric_amount
                        (filter (\<lambda>l. toFixed (decimal_price l) p = k) orders))))
                 else None)"
    using group_levels_result[OF ds, of p] by auto
  define out where "out = map (\<lambda>e. \<lparr>price = key_value (fst e) p, amount = snd e\<rparr>) g"
  have res: "groupByPrecision orders p = Some out"
    by (simp add: groupByPrecision_def g out_def)
  have prices: "map price out = first_occurrences (map (\<lambda>l. round_half_up (decimal_price l) p) orders)"
    using grouped_prices[OF ds keys] by (simp add: out_def comp_def)
  have dist: "distinct (map price out)"
    by (simp only: prices distinct_first_occurrences)
  have amounts: "\<forall>g' \<in> set out. amount g' = Some (sum_list (map numeric_amount
          (filter (\<lambda>l. round_half_up (decimal_price l) p = price g') orders)))"
    using grouped_amounts[OF ds keys vals] by (auto simp: out_def)
  have near: "\<forall>l \<in> set orders.
          decimal_price l * 10 ^ p - 1 / 2 < round_half_up (decimal_price l) p * 10 ^ p \<and>
          round_half_up (decimal_price l) p * 10 ^ p \<le> decimal_price l * 10 ^ p + 1 / 2 \<and>
          round_half_up (decimal_price l) p * 10 ^ p \<in> \<int>"
    using decimal_side_level[OF ds] round_half_up_nearest by blast
  have link: "\<forall>l \<in> set orders. level_price l = Some (decimal_price l)"
    using decimal_side_level[OF ds] Decimal_parseFloat by (auto simp: level_price_def)
  have down: "sorted_wrt (\<lambda>a b. price b < price a) out"
    if "sorted_wrt (\<lambda>a b. decimal_price b \<le> decimal_price a) orders"
  proof -
    have "sorted_wrt (\<lambda>a b. b < a) (map price out)"
      unfolding prices using rounded_sorted_down[OF ds that] by (rule first_occurrences_sorted)
    then show ?thesis by (simp add: sorted_wrt_map)
  qed
  have up: "sorted_wrt (\<lambda>a b. price a < price b) out"
    if "sorted_wrt (\<lambda>a b. decimal_price a \<le> decimal_price b) orders"
  proof -
    have "sorted_wrt (\<lambda>a b. a < b) (map price out)"
      unfolding prices using rounded_sorted_up[OF ds that] by (rule first_occurrences_sorted_up)
    then show ?thesis by (simp add: sorted_wrt_map)
  qed
  have ex: "groupByPrecision [(''100.001'', ''0.5''), (''100.004'', ''0.3'')] 2
       = Some [\<lparr>price = 100, amount = Some (4 / 5)\<rparr>]"
    by (simp add: group_eval)
  show ?thesis using res prices dist amounts near link down up ex by blast
qed

text \<open>The amended claim on three raw levels that fall into two buckets.\<close>

theorem grouping_rounds_half_up_witness:
  "decimal_side [(''100.001'', ''0.5''), (''100.004'', ''0.3''), (''100.006'', ''1'')] \<and>
   groupByPrecision [(''100.001'', ''0.5''), (''100.004'', ''0.3''), (''100.006'', ''1'')] 2
     = Some [\<lparr>price = 100, amount = Some (4 / 5)\<rparr>, \<lparr>price = 10001 / 100, amount = Some 1\<rparr>]"
proof -
  have d: "decimal_side [(''100.001'', ''0.5''), (''100.004'', ''0.3''), (''100.006'', ''1'')]"
    by (simp add: decimal_side_def Decimal_examples parseFloat_more parseFloat_examples
          del: not_None_eq)
  show ?thesis
    using grouping_rounds_half_up[OF d, of 2] d by (simp add: group_eval)
qed

section \<open>Cumulative depth: totals and percentages\<close>

lemma length_depth_rows: "length (depth_rows t m orders) = length orders"
  by (induction orders arbitrary: t) simp_all

lemma depth_rows_nth:
  assumes "list_all (\<lambda>g. amount g \<noteq> None) orders" and "i < length orders" and "m \<noteq> 0"
  shows "depth_rows (Some t) (Some m) orders ! i =
           \<lparr>price = price (orders ! i), amount = amount (orders ! i),
            total = Some (t + sum_list (map quantity (take (Suc i) orders))),
            depthPercentage = Some (100 * quantity (orders ! i) / m),
            isUpdated = False, changeType = []\<rparr>"
  using assms
proof (induction orders arbitrary: t i)
  case Nil
  then show ?case by simp
next
  case (Cons order orders)
  from Cons.prems(1) obtain a where a: "amount order = Some a" by auto
  then have q: "quantity order = a" by (simp add: quantity_def)
  show ?case
  proof (cases i)
    case 0
    then show ?thesis using a q Cons.prems(3)
      by (simp add: js_add_def js_mul_def js_div_def)
  next
    case (Suc j)
    then have "depth_rows (Some (t + a)) (Some m) orders ! j =
           \<lparr>price = price (orders ! j), amount = amount (orders ! j),
            total = Some (t + a + sum_list (map quantity (take (Suc j) orders))),
            depthPercentage = Some (100 * quantity (orders ! j) / m),
            isUpdated = False, changeType = []\<rparr>"
      using Cons.IH[of j "t + a"] Cons.prems by simp
    then show ?thesis using Suc a q by (simp add: js_add_def add.assoc)
  qed
qed

lemma math_max_numeric:
  "xs \<noteq> [] \<Longrightarrow> list_all (\<lambda>x. x \<noteq> None) xs \<Longrightarrow>
   math_max xs = Some (Max (set (map (\<lambda>x. case x of Some a \<Rightarrow> a | None \<Rightarrow> 0) xs)))"
proof (induction xs rule: math_max.induct)
  case 1
  then show ?case by simp
next
  case (2 x)
  then show ?case by auto
next
  case (3 x y ys)
  then obtain a where a: "x = Some a" by auto
  have "math_max (y # ys) = Some (Max (set (map (\<lambda>x. case x of Some a \<Rightarrow> a | None \<Rightarrow> 0) (y # ys))))"
    using 3 by simp
  then show ?case using a by (simp add: js_max_def)
qed

lemma math_max_amounts:
  assumes "orders \<noteq> []" and "list_all (\<lambda>g. amount g \<noteq> None) orders"
  shows "math_max (map amount orders) = Some (Max (set (map quantity orders)))"
proof -
  have "list_all (\<lambda>x. x \<noteq> None) (map amount orders)"
    using assms(2) by (simp add: list_all_iff)
  then have "math_max (map amount orders)
     = Some (Max (set (map (\<lambda>x. case x of Some a \<Rightarrow> a | None \<Rightarrow> 0) (map amount orders))))"
    using assms(1) by (simp add: math_max_numeric)
  moreover have "map (\<lambda>x. case x of Some a \<Rightarrow> a | None \<Rightarrow> 0) (map amount orders) = map quantity orders"
    by (simp add: quantity_def comp_def)
  ultimately show ?thesis by simp
qed

text \<open>
  Claim C7 does not hold as stated: the percentage is not rounded, and the maximum
  is taken over the whole grouped side, before the side is cut to the rows that are
  displayed. With the quantities 1, 2, 4 and two rows displayed the percentages
  are 25 and 50 where the specification has 50 and 100; with the quantities 1 and
  3 the first percentage is 100/3 where the specification has 33.
\<close>

theorem depth_percentage_is_not_windowed:
  "map_option (map depthPercentage \<circ> display_bids)
     (processedOrderbook
        \<lparr>bids = [(''102'', ''1''), (''101'', ''2''), (''100'', ''4'')], asks = [],
         lastUpdateId = Some 1\<rparr> 0 2)
   = Some [Some 25, Some 50] \<and>
   map (spec_depthPercent [1, 2]) [1, 2] = [50, 100] \<and>
   map depthPercentage (calculateDepth [\<lparr>price = 101, amount = Some 1\<rparr>, \<lparr>price = 100, amount = Some 3\<rparr>])
   = [Some (100 / 3), Some 100] \<and>
   map (spec_depthPercent [1, 3]) [1, 3] = [33, 100]"
  by (simp add: processedOrderbook_def group_eval depth_eval spec_depthPercent_def floor_rat_numeral)

text \<open>
  Claim C7, amended: for a grouped side whose quantities are numbers and whose
  largest quantity is not zero, each displayed row keeps the price and quantity of
  its level, its total is the sum of the quantities from the best price to it, and
  its percentage is \<open>100 * quantity / max\<close>, not rounded, where \<open>max\<close> is the largest
  quantity of the whole grouped side, displayed or not. An empty side gives no row
  at all. The quantities 1, 2, 4 give the totals 1, 3, 7 and, when all three are
  on the side, the percentages 25, 50, 100.
\<close>

theorem depth_over_whole_side:
  assumes "list_all (\<lambda>g. amount g \<noteq> None) orders"
    and "i < length orders" and "i < currentDepth"
    and "Max (set (map quantity orders)) \<noteq> 0"
  shows "length (take currentDepth (calculateDepth orders)) = min (length orders) currentDepth \<and>
         price (take currentDepth (calculateDepth orders) ! i) = price (orders ! i) \<and>
         amount (take currentDepth (calculateDepth orders) ! i) = amount (orders ! i) \<and>
         total (take currentDepth (calculateDepth orders) ! i)
           = Some (sum_list (map quantity (take (Suc i) orders))) \<and>
         depthPercentage (take currentDepth (calculateDepth orders) ! i)
           = Some (100 * quantity (orders ! i) / Max (set (map quantity orders))) \<and>
         calculateDepth [] = [] \<and>
         map total (calculateDepth [\<lparr>price = 102, amount = Some 1\<rparr>, \<lparr>price = 101, amount = Some 2\<rparr>,
              \<lparr>price = 100, amount = Some 4\<rparr>]) = [Some 1, Some 3, Some 7] \<and>
         map depthPercentage (calculateDepth [\<lparr>price = 102, amount = Some 1\<rparr>,
              \<lparr>price = 101, amount = Some 2\<rparr>, \<lparr>price = 100, amount = Some 4\<rparr>])
           = [Some 25, Some 50, Some 100]"
proof -
  have ne: "orders \<noteq> []" using assms(2) by auto
  have c: "calculateDepth orders
           = depth_rows (Some 0) (Some (Max (set (map quantity orders)))) orders"
    by (simp add: calculateDepth_def math_max_amounts[OF ne assms(1)])
  have row: "take currentDepth (calculateDepth orders) ! i =
           \<lparr>price = price (orders ! i), amount = amount (orders ! i),
            total = Some (0 + sum_list (map quantity (take (Suc i) orders))),
            depthPercentage = Some (100 * quantity (orders ! i) / Max (set (map quantity orders))),
            isUpdated = False, changeType = []\<rparr>"
    using assms(3) depth_rows_nth[OF assms(1,2,4), of 0] by (simp add: c)
  have len: "length (take currentDepth (calculateDepth orders)) = min (length orders) currentDepth"
    by (simp add: c length_depth_rows)
  have e: "calculateDepth [] = []" by (simp add: calculateDepth_def)
  have ex: "map total (calculateDepth [\<lparr>price = 102, amount = Some 1\<rparr>, \<lparr>price = 101, amount = Some 2\<rparr>,
              \<lparr>price = 100, amount = Some 4\<rparr>]) = [Some 1, Some 3, Some 7]"
    "map depthPercentage (calculateDepth [\<lparr>price = 102, amount = Some 1\<rparr>,
              \<lparr>price = 101, amount = Some 2\<rparr>, \<lparr>price = 100, amount = Some 4\<rparr>])
           = [Some 25, Some 50, Some 100]"
    by (simp_all add: depth_eval)
  show ?thesis using row len e ex by simp
qed

text \<open>The amended claim on the second of two displayed rows out of three.\<close>

theorem depth_over_whole_side_witness:
  "list_all (\<lambda>g. amount g \<noteq> None) [\<lparr>price = 102, amount = Some 1\<rparr>,
       \<lparr>price = 101, amount = Some 2\<rparr>, \<lparr>price = 100, amount = Some 4\<rparr>] \<and>
   Max (set (map quantity [\<lparr>price = 102, amount = Some 1\<rparr>,
       \<lparr>price = 101, amount = Some 2\<rparr>, \<lparr>price = 100, amount = Some 4\<rparr>])) = 4 \<and>
   map depthPercentage (take 2 (calculateDepth [\<lparr>price = 102, amount = Some 1\<rparr>,
       \<lparr>price = 101, amount = Some 2\<rparr>, \<lparr>price = 100, amount = Some 4\<rparr>])) = [Some 25, Some 50] \<and>
   total (take 2 (calculateDepth [\<lparr>price = 102, amount = Some 1\<rparr>,
       \<lparr>price = 101, amount = Some 2\<rparr>, \<lparr>price = 100, amount = Some 4\<rparr>]) ! 1) = Some 3 \<and>
   depthPercentage (take 2 (calculateDepth [\<lparr>price = 102, amount = Some 1\<rparr>,
       \<lparr>price = 101, amount = Some 2\<rparr>, \<lparr>price = 100, amount = Some 4\<rparr>]) ! 1)
     = Some (100 * 2 / Max {1, 2, 4})"
  using depth_over_whole_side
    [of "[\<lparr>price = 102, amount = Some 1\<rparr>, \<lparr>price = 101, amount = Some 2\<rparr>,
          \<lparr>price = 100, amount = Some 4\<rparr>]" 1 2]
  by (simp add: quantity_def depth_eval)

section \<open>Snapshot responses after a symbol change\<close>

lemma run_session_append: "run_session s (es @ fs) = run_session (run_session s es) fs"
  by (simp add: run_session_def)

lemma run_session_depth:
  "rawOrderbook (run_session s (map DepthReceived ds)) = foldl (\<lambda>b d. updateOrderbook d b) (rawOrderbook s) ds \<and>
   symbol (run_session s (map DepthReceived ds)) = symbol s \<and>
   pending (run_session s (map DepthReceived ds)) = pending s"
  unfolding run_session_def by (induction ds arbitrary: s) simp_all

text \<open>
  Claim C9 does not hold as stated: the component has no generation token, and
  \<^verbatim>\<open>initOrderbook\<close> stores whatever response arrives. The component is mounted for
  BTCUSDT; the symbol changes to ETHUSDT while the first request is pending; the
  response for ETHUSDT arrives, then the one for BTCUSDT: the book of the session
  for ETHUSDT is the BTCUSDT snapshot.
\<close>

theorem stale_snapshot_overwrites_book:
  "run_session (mounted ''BTCUSDT'')
     [SymbolChanged ''ETHUSDT'',
      SnapshotResolved 1 \<lparr>bids = [(''2000'', ''1'')], asks = [(''2001'', ''1'')], lastUpdateId = Some 9\<rparr>,
      SnapshotResolved 0 \<lparr>bids = [(''100'', ''1'')], asks = [(''101'', ''1'')], lastUpdateId = Some 5\<rparr>]
   = \<lparr>symbol = ''ETHUSDT'',
      rawOrderbook = \<lparr>bids = [(''100'', ''1'')], asks = [(''101'', ''1'')], lastUpdateId = Some 5\<rparr>,
      pending = [], hasError = False\<rparr> \<and>
   pending (run_session (mounted ''BTCUSDT'') [SymbolChanged ''ETHUSDT'']) = [''BTCUSDT'', ''ETHUSDT'']"
  by (simp add: run_session_def mounted_def splice1_def)

text \<open>
  Claim C9, amended: a symbol change leaves the earlier request pending, and
  every response that resolves replaces the book, whichever symbol it was
  requested for; the book is the snapshot that resolved last, with the depth
  messages received since applied to it. A response for an earlier symbol is out
  of the book only once a later response has overwritten it.
\<close>

theorem last_resolved_snapshot_wins:
  assumes "i < length (pending (run_session s es))"
  shows "rawOrderbook (run_session s (es @ [SnapshotResolved i snap] @ map DepthReceived ds))
           = foldl (\<lambda>b d. updateOrderbook d b) snap ds \<and>
         symbol (run_session s (es @ [SnapshotResolved i snap] @ map DepthReceived ds))
           = symbol (run_session s es) \<and>
         pending (run_session s (es @ [SymbolChanged newSymbol]))
           = pending (run_session s es) @ [newSymbol]"
proof -
  have 1: "run_session (run_session s es) [SnapshotResolved i snap]
        = (run_session s es)\<lparr>rawOrderbook := snap, pending := splice1 i (pending (run_session s es))\<rparr>"
    using assms by (simp add: run_session_def)
  have 2: "pending (run_session (run_session s es) [SymbolChanged newSymbol])
        = pending (run_session s es) @ [newSymbol]"
    by (simp add: run_session_def)
  show ?thesis
    using 2 by (simp only: run_session_append 1 run_session_depth) simp
qed

text \<open>The amended claim on the run of the counterexample.\<close>

theorem last_resolved_snapshot_wins_witness:
  "(0::nat) < length (pending (run_session (mounted ''BTCUSDT'')
      [SymbolChanged ''ETHUSDT'',
       SnapshotResolved 1 \<lparr>bids = [(''2000'', ''1'')], asks = [(''2001'', ''1'')], lastUpdateId = Some 9\<rparr>])) \<and>
   rawOrderbook (run_session (mounted ''BTCUSDT'')
     ([SymbolChanged ''ETHUSDT'',
       SnapshotResolved 1 \<lparr>bids = [(''2000'', ''1'')], asks = [(''2001'', ''1'')], lastUpdateId = Some 9\<rparr>]
      @ [SnapshotResolved 0 \<lparr>bids = [(''100'', ''1'')], asks = [(''101'', ''1'')], lastUpdateId = Some 5\<rparr>]
      @ map DepthReceived []))
   = \<lparr>bids = [(''100'', ''1'')], asks = [(''101'', ''1'')], lastUpdateId = Some 5\<rparr> \<and>
   symbol (run_session (mounted ''BTCUSDT'')
     ([SymbolChanged ''ETHUSDT'',
       SnapshotResolved 1 \<lparr>bids = [(''2000'', ''1'')], asks = [(''2001'', ''1'')], lastUpdateId = Some 9\<rparr>]
      @ [SnapshotResolved 0 \<lparr>bids = [(''100'', ''1'')], asks = [(''101'', ''1'')], lastUpdateId = Some 5\<rparr>]
      @ map DepthReceived [])) = ''ETHUSDT''"
proof -
  have p: "(0::nat) < length (pending (run_session (mounted ''BTCUSDT'')
      [SymbolChanged ''ETHUSDT'',
       SnapshotResolved 1 \<lparr>bids = [(''2000'', ''1'')], asks = [(''2001'', ''1'')], lastUpdateId = Some 9\<rparr>]))"
    by (simp add: run_session_def mounted_def splice1_def)
  have s: "symbol (run_session (mounted ''BTCUSDT'')
      [SymbolChanged ''ETHUSDT'',
       SnapshotResolved 1 \<lparr>bids = [(''2000'', ''1'')], asks = [(''2001'', ''1'')], lastUpdateId = Some 9\<rparr>])
      = ''ETHUSDT''"
    by (simp add: run_session_def mounted_def splice1_def)
  show ?thesis
    using last_resolved_snapshot_wins[OF p,
        of "\<lparr>bids = [(''100'', ''1'')], asks = [(''101'', ''1'')], lastUpdateId = Some 5\<rparr>" "[]"] p s
    by simp
qed

end
